theory Spec2Isabelle
  imports Complex_Main
begin

section \<open>The output audio queue of \<open>GeminiLiveService\<close> (src/services/geminiLive.ts)\<close>

text \<open>
  The service keeps a playback cursor \<open>nextStartTime\<close> and a set \<open>audioSources\<close> of
  buffer source nodes that were started on the output audio context.  The specification
  calls the audio branch of \<open>handleMessage\<close> \<open>enqueueAndSchedule\<close>, \<open>stopAudioOutput\<close>
  \<open>interrupt\<close> and \<open>disconnect\<close> \<open>reset\<close>.

  Times are JavaScript numbers in the source; they are modelled as \<open>real\<close>, so rounding of
  sums is idealised.  Source nodes are objects with identity: they live in a store
  \<open>nodes\<close> indexed by handles, and \<open>audioSources\<close> lists handles in insertion order, as a
  JavaScript \<open>Set\<close> iterates.  The device clock is the field \<open>currentTime\<close> of the output
  context; it only moves by the environment step \<open>advanceClock\<close>.
\<close>

type_synonym handle = nat

datatype error = InvalidStateError | DecodeError | RequestError

text \<open>
  Of a decoded buffer only its duration matters here.  An audio context is an object with
  an identity, a clock and a state, closed or not.  A source node remembers the context
  that created it, its buffer, the time that \<open>start\<close> was given (\<open>None\<close> before the call),
  and whether \<open>stop\<close> was called.
\<close>

record AudioBuffer =
  duration :: real

record AudioContext =
  ctx_id :: nat
  currentTime :: real
  ctx_closed :: bool

record AudioBufferSourceNode =
  node_context :: nat
  buffer :: AudioBuffer
  startWhen :: "real option"
  stopCalled :: bool

record LiveServerMessage =
  audioData :: "string option"
  interrupted :: bool
  outputTranscription :: "string option"
  inputTranscription :: "string option"

text \<open>
  The fields of the class that concern the output queue; the input side (microphone,
  script processor, video frames) is left out.  \<open>sessionPromise\<close> only records whether the
  field is set.  \<open>nodes\<close>, \<open>allocated\<close> and \<open>contextsCreated\<close> are the objects created so
  far: \<open>createBufferSource\<close> and \<open>new AudioContext\<close> return objects that did not exist
  before.
\<close>

record GeminiLiveService =
  sessionPromise :: bool
  outputAudioContext :: "AudioContext option"
  nextStartTime :: real
  audioSources :: "handle list"
  nodes :: "handle \<rightharpoonup> AudioBufferSourceNode"
  allocated :: nat
  contextsCreated :: nat

text \<open>Field initialisers of the class (lines 14--24): no session, no context, cursor 0,
  empty set.\<close>

definition initial :: GeminiLiveService where
  "initial = \<lparr>sessionPromise = False, outputAudioContext = None, nextStartTime = 0,
     audioSources = [], nodes = Map.empty, allocated = 0, contextsCreated = 0\<rparr>"

text \<open>JavaScript truthiness of an optional string: \<open>undefined\<close> and the empty string are
  falsy.\<close>

definition truthy :: "string option \<Rightarrow> bool" where
  "truthy v = (case v of None \<Rightarrow> False | Some t \<Rightarrow> t \<noteq> [])"

text \<open>\<open>source.stop()\<close> of the Web Audio API raises \<open>InvalidStateError\<close> on a node that was
  never started and otherwise records the stop; on a node whose playback is over it has
  no audible effect.  A handle always refers to a node; the \<open>None\<close> branch is there for
  totality.\<close>

definition source_stop :: "handle \<Rightarrow> (handle \<rightharpoonup> AudioBufferSourceNode)
    \<Rightarrow> error + (handle \<rightharpoonup> AudioBufferSourceNode)" where
  "source_stop h store =
     (case store h of
        None \<Rightarrow> Inl InvalidStateError
      | Some n \<Rightarrow>
          if startWhen n = None then Inl InvalidStateError
          else Inr (store(h \<mapsto> n\<lparr>stopCalled := True\<rparr>)))"

text \<open>Line 140: \<open>try { source.stop(); } catch(e) {}\<close>.\<close>

definition tryStop :: "handle \<Rightarrow> (handle \<rightharpoonup> AudioBufferSourceNode)
    \<Rightarrow> (handle \<rightharpoonup> AudioBufferSourceNode)" where
  "tryStop h store = (case source_stop h store of Inl e \<Rightarrow> store | Inr store' \<Rightarrow> store')"

text \<open>Lines 138--146.\<close>

definition stopAudioOutput :: "GeminiLiveService \<Rightarrow> GeminiLiveService" where
  "stopAudioOutput s =
     (let stopped = fold tryStop (audioSources s) (nodes s);
          s1 = s\<lparr>nodes := stopped, audioSources := []\<rparr>
      in case outputAudioContext s1 of
           None \<Rightarrow> s1
         | Some ctx \<Rightarrow> s1\<lparr>nextStartTime := currentTime ctx\<rparr>)"

text \<open>
  Lines 104--122, the audio branch of \<open>handleMessage\<close>.  \<open>base64ToUint8Array\<close> and
  \<open>decodeAudioData\<close> live in utils/audioUtils, which is not part of the sources at hand:
  the outcome of decoding this message's payload is the parameter \<open>decoded\<close>.  A rejected
  decode rejects the whole call after line 106 has already moved the cursor.  The source
  node is a new object, so \<open>add\<close> appends it; \<open>createBufferSource\<close>, \<open>connect\<close> and
  \<open>start\<close> return normally (the node was not started before).  The call is modelled as
  one atomic step (one producer, no other handler runs during the \<open>await\<close>).
\<close>

definition handleAudioOutput :: "LiveServerMessage \<Rightarrow> error + AudioBuffer
    \<Rightarrow> GeminiLiveService \<Rightarrow> error option \<times> GeminiLiveService" where
  "handleAudioOutput message decoded s =
     (case outputAudioContext s of
        None \<Rightarrow> (None, s)
      | Some ctx \<Rightarrow>
          if \<not> truthy (audioData message) then (None, s)
          else
            let s1 = s\<lparr>nextStartTime := max (nextStartTime s) (currentTime ctx)\<rparr>
            in (case decoded of
                  Inl e \<Rightarrow> (Some e, s1)
                | Inr audioBuffer \<Rightarrow>
                    let source = allocated s1;
                        node = \<lparr>node_context = ctx_id ctx, buffer = audioBuffer,
                                 startWhen = Some (nextStartTime s1), stopCalled = False\<rparr>
                    in (None, s1\<lparr>nodes := (nodes s1)(source \<mapsto> node),
                                   allocated := Suc source,
                                   nextStartTime := nextStartTime s1 + duration audioBuffer,
                                   audioSources := audioSources s1 @ [source]\<rparr>)))"

text \<open>Lines 102--136.  The transcription callbacks of part 3 touch no field of the
  service and are left out.\<close>

definition handleMessage :: "LiveServerMessage \<Rightarrow> error + AudioBuffer
    \<Rightarrow> GeminiLiveService \<Rightarrow> error option \<times> GeminiLiveService" where
  "handleMessage message decoded s =
     (case handleAudioOutput message decoded s of
        (Some e, s1) \<Rightarrow> (Some e, s1)
      | (None, s1) \<Rightarrow> (None, if interrupted message then stopAudioOutput s1 else s1))"

text \<open>Line 119: \<open>source.onended = () => this.audioSources.delete(source)\<close>.\<close>

definition onended :: "handle \<Rightarrow> GeminiLiveService \<Rightarrow> GeminiLiveService" where
  "onended h s = s\<lparr>audioSources := removeAll h (audioSources s)\<rparr>"

text \<open>Lines 30--75, as far as the output queue is concerned: a new output context
  replaces the old one; \<open>t0\<close> is what its clock reads when \<open>connect\<close> returns.\<close>

definition connect :: "real \<Rightarrow> GeminiLiveService \<Rightarrow> GeminiLiveService" where
  "connect t0 s =
     s\<lparr>outputAudioContext :=
         Some \<lparr>ctx_id = contextsCreated s, currentTime = t0, ctx_closed = False\<rparr>,
       contextsCreated := Suc (contextsCreated s),
       sessionPromise := True\<rparr>"

text \<open>
  Lines 159--189, as far as the output queue is concerned.  The two \<open>close()\<close> calls of
  lines 167--172 are awaited without a handler, and the Web Audio API rejects \<open>close()\<close>
  on a context that is closed already; their outcome is the parameter \<open>closing\<close>.  When
  one of them rejects, \<open>disconnect\<close> rejects before lines 179--188 run and the queue is as
  it was.  Otherwise the output context is closed (the field keeps the closed object), the
  session is dropped and the cursor is set to 0.  \<open>stopAudioOutput\<close> is not called and
  \<open>audioSources\<close> is not touched.
\<close>

definition disconnect :: "error option \<Rightarrow> GeminiLiveService \<Rightarrow> error option \<times> GeminiLiveService" where
  "disconnect closing s =
     (case closing of
        Some e \<Rightarrow> (Some e, s)
      | None \<Rightarrow>
          (None,
           s\<lparr>outputAudioContext :=
               map_option (\<lambda>ctx. ctx\<lparr>ctx_closed := True\<rparr>) (outputAudioContext s),
             sessionPromise := False,
             nextStartTime := 0\<rparr>))"

text \<open>The service after a \<open>disconnect\<close> that went through.\<close>

abbreviation disconnected :: "GeminiLiveService \<Rightarrow> GeminiLiveService" where
  "disconnected s \<equiv> snd (disconnect None s)"

text \<open>The environment: the clock of an open output context advances.\<close>

definition advanceClock :: "real \<Rightarrow> GeminiLiveService \<Rightarrow> GeminiLiveService" where
  "advanceClock d s =
     s\<lparr>outputAudioContext :=
         map_option (\<lambda>ctx. if ctx_closed ctx then ctx else ctx\<lparr>currentTime := currentTime ctx + d\<rparr>)
           (outputAudioContext s)\<rparr>"

subsection \<open>Executions\<close>

text \<open>
  What can happen to the service, one event at a time.  \<open>onmessage\<close> is registered inside
  \<open>connect\<close> after \<open>outputAudioContext\<close> is assigned, and no code assigns \<open>null\<close> to that
  field again, so a message finds a context.  The clock never runs backwards, and the
  duration of a decoded buffer is not negative.
\<close>

datatype event =
    Connect real
  | AdvanceClock real
  | Message LiveServerMessage "error + AudioBuffer"
  | Onended handle
  | Disconnect "error option"

fun enabled :: "event \<Rightarrow> GeminiLiveService \<Rightarrow> bool" where
  "enabled (Connect t0) s = (0 \<le> t0)"
| "enabled (AdvanceClock d) s = (0 \<le> d)"
| "enabled (Message m decoded) s =
     (outputAudioContext s \<noteq> None \<and> (case decoded of Inl e \<Rightarrow> True | Inr b \<Rightarrow> 0 \<le> duration b))"
| "enabled (Onended h) s = (h < allocated s)"
| "enabled (Disconnect closing) s = True"

fun fire :: "event \<Rightarrow> GeminiLiveService \<Rightarrow> GeminiLiveService" where
  "fire (Connect t0) s = connect t0 s"
| "fire (AdvanceClock d) s = advanceClock d s"
| "fire (Message m decoded) s = snd (handleMessage m decoded s)"
| "fire (Onended h) s = onended h s"
| "fire (Disconnect closing) s = snd (disconnect closing s)"

fun exec :: "event list \<Rightarrow> GeminiLiveService \<Rightarrow> GeminiLiveService option" where
  "exec [] s = Some s"
| "exec (e # es) s = (if enabled e s then exec es (fire e s) else None)"

text \<open>The start time that \<open>source.start\<close> was given for a handle.\<close>

definition startTime :: "GeminiLiveService \<Rightarrow> handle \<Rightarrow> real option" where
  "startTime s h = (case nodes s h of None \<Rightarrow> None | Some n \<Rightarrow> startWhen n)"

text \<open>A handle has been stopped.\<close>

definition stopped :: "GeminiLiveService \<Rightarrow> handle \<Rightarrow> bool" where
  "stopped s h = (case nodes s h of None \<Rightarrow> False | Some n \<Rightarrow> stopCalled n)"

text \<open>Every member of the active set was started (line 115 precedes line 118).\<close>

definition sourcesStarted :: "GeminiLiveService \<Rightarrow> bool" where
  "sourcesStarted s = (\<forall>h \<in> set (audioSources s). startTime s h \<noteq> None)"

text \<open>
  The playback interval of a handle that is scheduled on the device: the node was
  started on the current output context, that context is open, and the node was not
  stopped.
\<close>

definition segment :: "GeminiLiveService \<Rightarrow> handle \<Rightarrow> (real \<times> real) option" where
  "segment s h =
     (case outputAudioContext s of
        None \<Rightarrow> None
      | Some ctx \<Rightarrow>
          if ctx_closed ctx then None
          else (case nodes s h of
                  None \<Rightarrow> None
                | Some n \<Rightarrow>
                    if node_context n \<noteq> ctx_id ctx \<or> stopCalled n then None
                    else (case startWhen n of
                            None \<Rightarrow> None
                          | Some t \<Rightarrow> Some (t, t + duration (buffer n)))))"

definition disjointIntervals :: "(real \<times> real) option \<Rightarrow> (real \<times> real) option \<Rightarrow> bool" where
  "disjointIntervals i j =
     (case (i, j) of
        (Some (a1, b1), Some (a2, b2)) \<Rightarrow> b1 \<le> a2 \<or> b2 \<le> a1
      | _ \<Rightarrow> True)"

definition noOverlap :: "GeminiLiveService \<Rightarrow> bool" where
  "noOverlap s =
     (\<forall>h1 \<in> set (audioSources s). \<forall>h2 \<in> set (audioSources s).
        h1 \<noteq> h2 \<longrightarrow> disjointIntervals (segment s h1) (segment s h2))"

text \<open>The cursor is not before the end of any scheduled segment.\<close>

definition cursorCovers :: "GeminiLiveService \<Rightarrow> bool" where
  "cursorCovers s =
     (\<forall>h \<in> set (audioSources s).
        case segment s h of None \<Rightarrow> True | Some (a, b) \<Rightarrow> b \<le> nextStartTime s)"

text \<open>Handles and context identities are handed out in order.\<close>

definition storeFresh :: "GeminiLiveService \<Rightarrow> bool" where
  "storeFresh s =
     ((\<forall>h n. nodes s h = Some n \<longrightarrow> h < allocated s \<and> node_context n < contextsCreated s)
      \<and> (\<forall>h \<in> set (audioSources s). h < allocated s)
      \<and> (case outputAudioContext s of None \<Rightarrow> True | Some ctx \<Rightarrow> ctx_id ctx < contextsCreated s))"

text \<open>Messages that carry audio and no interruption, each with its decoded buffer, handled
  one after the other.\<close>

fun enqueueAll :: "(LiveServerMessage \<times> AudioBuffer) list \<Rightarrow> GeminiLiveService \<Rightarrow> GeminiLiveService" where
  "enqueueAll [] s = s"
| "enqueueAll ((m, b) # rest) s = enqueueAll rest (snd (handleMessage m (Inr b) s))"

subsection \<open>Auxiliary notions and example states\<close>

text \<open>What a guarded \<open>stop()\<close> does to one node.\<close>

definition markStopped :: "AudioBufferSourceNode \<Rightarrow> AudioBufferSourceNode" where
  "markStopped n = (if startWhen n = None then n else n\<lparr>stopCalled := True\<rparr>)"

text \<open>Example data: a message with an audio payload, a buffer of a given length, the
  service once its output clock reads \<open>t\<close>, and three segments arriving back to back.\<close>

definition audioMessage :: LiveServerMessage where
  "audioMessage = \<lparr>audioData = Some ''UklGRg=='', interrupted = False,
     outputTranscription = None, inputTranscription = None\<rparr>"

definition seconds :: "real \<Rightarrow> AudioBuffer" where
  "seconds d = \<lparr>duration = d\<rparr>"

definition clockAt :: "real \<Rightarrow> GeminiLiveService" where
  "clockAt t = advanceClock t (connect 0 initial)"

definition backlog :: "(LiveServerMessage \<times> AudioBuffer) list" where
  "backlog = [(audioMessage, seconds 1), (audioMessage, seconds (1/2)), (audioMessage, seconds 2)]"

text \<open>The events that run \<open>stopAudioOutput\<close> or \<open>disconnect\<close>.\<close>

definition resetting :: "event \<Rightarrow> bool" where
  "resetting e = (case e of Disconnect closing \<Rightarrow> True | Message m decoded \<Rightarrow> interrupted m | _ \<Rightarrow> False)"

text \<open>One segment of one second scheduled at 10, and the clock at 12.\<close>

definition afterOneSecond :: GeminiLiveService where
  "afterOneSecond = advanceClock 2 (snd (handleMessage audioMessage (Inr (seconds 1)) (clockAt 10)))"

text \<open>Playback of a node is over: it was started on this context and the clock has
  reached the end of its buffer.\<close>

definition playbackCompleted :: "AudioContext \<Rightarrow> AudioBufferSourceNode \<Rightarrow> bool" where
  "playbackCompleted ctx n =
     (node_context n = ctx_id ctx
      \<and> (case startWhen n of None \<Rightarrow> False | Some t \<Rightarrow> t + duration (buffer n) \<le> currentTime ctx))"

text \<open>Two one-second segments scheduled at clock 10 and the clock half a second on; one
  segment scheduled at clock 10; a service connected and disconnected again.\<close>

definition twoScheduled :: GeminiLiveService where
  "twoScheduled = advanceClock (1/2)
     (enqueueAll [(audioMessage, seconds 1), (audioMessage, seconds 1)] (clockAt 10))"

definition oneScheduled :: GeminiLiveService where
  "oneScheduled = snd (handleMessage audioMessage (Inr (seconds 1)) (clockAt 10))"

definition tornDown :: GeminiLiveService where
  "tornDown = disconnected (clockAt 10)"

text \<open>An execution without interruption and without disconnect.\<close>

definition quietRun :: "event list" where
  "quietRun = [Connect 0, AdvanceClock 10, Message audioMessage (Inr (seconds 1)), AdvanceClock 2,
     Onended 0, Message audioMessage (Inl DecodeError), Connect 0]"

text \<open>The specification's description of \<open>reset()\<close>, in its words: \<open>interrupt()\<close>
  followed by setting \<open>nextStartTime\<close> to 0.\<close>

definition interruptThenZero :: "GeminiLiveService \<Rightarrow> GeminiLiveService" where
  "interruptThenZero s = (stopAudioOutput s)\<lparr>nextStartTime := 0\<rparr>"

text \<open>What every execution maintains.\<close>

definition wellFormed :: "GeminiLiveService \<Rightarrow> bool" where
  "wellFormed s = (storeFresh s \<and> sourcesStarted s \<and> noOverlap s \<and> cursorCovers s)"

text \<open>An execution in which playback of the only segment is over before the next call.\<close>

definition lateRun :: "event list" where
  "lateRun = [Connect 0, AdvanceClock 10, Message audioMessage (Inr (seconds 1)), AdvanceClock 2]"

text \<open>The execution that leads to \<open>twoScheduled\<close>, and that state one second later, when
  the first segment has played to its end and its \<open>onended\<close> handler has not run yet.\<close>

definition backlogRun :: "event list" where
  "backlogRun = [Connect 0, AdvanceClock 10, Message audioMessage (Inr (seconds 1)),
     Message audioMessage (Inr (seconds 1)), AdvanceClock (1/2)]"

definition firstFinished :: GeminiLiveService where
  "firstFinished = advanceClock 1 twoScheduled"

section \<open>Route parsing in \<open>askForDirections\<close> (the map service)\<close>

text \<open>
  JavaScript strings are modelled as \<open>string\<close>: a character stands for a UTF-16 code unit
  below 256.  Numbers are JavaScript doubles; \<open>parseFloat\<close> is modelled by the exact
  decimal value it reads (the double is the nearest one), with \<open>NaN\<close> and the infinities
  apart (\<open>Infinity True\<close> is the negative one), which is all that \<open>isNaN\<close> looks at.
\<close>

datatype number = NaN | Infinity bool | Num rat

record MapPlace =
  title :: string
  lat :: number
  lng :: number
  description :: string

record MapResult =
  result_text :: string
  places :: "MapPlace list"

text \<open>What is sent to the model, without the wording of the prompt (lines 20--55), and
  what comes back: \<open>response.text\<close> may be undefined.\<close>

record DirectionsRequest =
  req_query :: string
  req_latitude :: number
  req_longitude :: number
  req_instruction :: string

record GenerateContentResponse =
  response_text :: "string option"

subsection \<open>Character classes of the pattern, \<open>trim\<close> and \<open>split\<close>\<close>

definition isLineTerminator :: "char \<Rightarrow> bool" where
  "isLineTerminator c = (c = CHR 0x0A \<or> c = CHR 0x0D)"

text \<open>\<open>\s\<close>, also what \<open>trim\<close> and \<open>parseFloat\<close> strip: tab, line feed, vertical tab, form feed,
  carriage return, space, no-break space.\<close>

definition isWhiteSpace :: "char \<Rightarrow> bool" where
  "isWhiteSpace c = (c \<in> set [CHR 0x09, CHR 0x0A, CHR 0x0B, CHR 0x0C, CHR 0x0D, CHR 0x20, CHR 0xA0])"

text \<open>The dot of a regular expression without the \<open>s\<close> flag.\<close>

definition anyChar :: "char \<Rightarrow> bool" where
  "anyChar c = (\<not> isLineTerminator c)"

definition isDigit :: "char \<Rightarrow> bool" where
  "isDigit c = (c \<in> set ''0123456789'')"

text \<open>The class \<open>[\d.-]\<close>.\<close>

definition coordChar :: "char \<Rightarrow> bool" where
  "coordChar c = (isDigit c \<or> c = CHR ''.'' \<or> c = CHR ''-'')"

definition trim :: "string \<Rightarrow> string" where
  "trim s = rev (dropWhile isWhiteSpace (rev (dropWhile isWhiteSpace s)))"

text \<open>\<open>text.split('\n')\<close>: the pieces between line feeds; the empty text has one empty
  line.  The result is never empty, the last branch is there for totality.\<close>

fun split_lines :: "string \<Rightarrow> string list" where
  "split_lines [] = [[]]"
| "split_lines (c # cs) =
     (if c = CHR 0x0A then [] # split_lines cs
      else (case split_lines cs of
              l # ls \<Rightarrow> (c # l) # ls
            | [] \<Rightarrow> [[c]]))"

subsection \<open>The regular expression\<close>

text \<open>
  The pattern of line 62 is a sequence of literals and of repeated character classes, some
  of them capturing.  \<open>Rep cls q n capture\<close> stands for \<open>cls{n,}\<close>, greedy or lazy.  Matching
  is what a backtracking engine does: a greedy repetition first takes as many characters
  as it can and gives them back one by one, a lazy one starts with as few as it may and
  takes one more each time the rest of the pattern fails.  \<open>regexMatch\<close> returns the
  captured groups of the first way that succeeds.
\<close>

datatype quantifier = Greedy | Lazy

datatype item = Lit string | Rep "char \<Rightarrow> bool" quantifier nat bool

fun firstSome :: "(nat \<Rightarrow> 'a option) \<Rightarrow> nat list \<Rightarrow> 'a option" where
  "firstSome f [] = None"
| "firstSome f (n # ns) = (case f n of Some r \<Rightarrow> Some r | None \<Rightarrow> firstSome f ns)"

definition candidates :: "quantifier \<Rightarrow> nat \<Rightarrow> nat \<Rightarrow> nat list" where
  "candidates q lo hi = (case q of Lazy \<Rightarrow> [lo..<Suc hi] | Greedy \<Rightarrow> rev [lo..<Suc hi])"

primrec regexMatch :: "item list \<Rightarrow> string \<Rightarrow> string list \<Rightarrow> string list option" where
  "regexMatch [] = (\<lambda>s groups. Some groups)"
| "regexMatch (it # rest) = (\<lambda>s groups.
     case it of
       Lit l \<Rightarrow> if take (length l) s = l then regexMatch rest (drop (length l) s) groups else None
     | Rep cls q lo capture \<Rightarrow>
         firstSome
           (\<lambda>n. regexMatch rest (drop n s) (if capture then groups @ [take n s] else groups))
           (candidates q lo (length (takeWhile cls s))))"

text \<open>\<open>line.match(regex)\<close> without the \<open>g\<close> flag: the first start position, from the left,
  at which the pattern matches.\<close>

fun regexSearch :: "item list \<Rightarrow> string \<Rightarrow> string list option" where
  "regexSearch r [] = regexMatch r [] []"
| "regexSearch r (c # cs) =
     (case regexMatch r (c # cs) [] of Some groups \<Rightarrow> Some groups | None \<Rightarrow> regexSearch r cs)"

text \<open>Line 62: \<open>/MARKER:\s*(.+?)\s*\|\s*([\d.-]+)\s*\|\s*([\d.-]+)\s*\|\s*(.*)/\<close>.\<close>

definition markerRegex :: "item list" where
  "markerRegex =
     [Lit ''MARKER:'', Rep isWhiteSpace Greedy 0 False, Rep anyChar Lazy 1 True,
      Rep isWhiteSpace Greedy 0 False, Lit ''|'',
      Rep isWhiteSpace Greedy 0 False, Rep coordChar Greedy 1 True,
      Rep isWhiteSpace Greedy 0 False, Lit ''|'',
      Rep isWhiteSpace Greedy 0 False, Rep coordChar Greedy 1 True,
      Rep isWhiteSpace Greedy 0 False, Lit ''|'',
      Rep isWhiteSpace Greedy 0 False, Rep anyChar Greedy 0 True]"

subsection \<open>\<open>parseFloat\<close>\<close>

text \<open>
  \<open>parseFloat\<close> skips leading white space and reads the longest prefix that is a decimal
  literal: a sign, then \<open>Infinity\<close> or digits with an optional fraction and an optional
  exponent.  Without any digit the result is \<open>NaN\<close>.
\<close>

definition digitsValue :: "string \<Rightarrow> nat" where
  "digitsValue ds = foldl (\<lambda>a c. 10 * a + (of_char c - 48)) 0 ds"

definition exponentPart :: "string \<Rightarrow> int" where
  "exponentPart s =
     (case s of
        [] \<Rightarrow> 0
      | c # r \<Rightarrow>
          if c = CHR ''e'' \<or> c = CHR ''E'' then
            (case r of
               [] \<Rightarrow> 0
             | d # r' \<Rightarrow>
                 if d = CHR ''-'' then
                   (if takeWhile isDigit r' = [] then 0 else - int (digitsValue (takeWhile isDigit r')))
                 else if d = CHR ''+'' then int (digitsValue (takeWhile isDigit r'))
                 else int (digitsValue (takeWhile isDigit r)))
          else 0)"

definition scale :: "rat \<Rightarrow> int \<Rightarrow> rat" where
  "scale x e = (if 0 \<le> e then x * 10 ^ nat e else x / 10 ^ nat (- e))"

definition parseUnsigned :: "string \<Rightarrow> rat option" where
  "parseUnsigned u =
     (let ip = takeWhile isDigit u;
          r1 = dropWhile isDigit u;
          fp = (case r1 of [] \<Rightarrow> [] | c # r \<Rightarrow> if c = CHR ''.'' then takeWhile isDigit r else []);
          r2 = (case r1 of [] \<Rightarrow> [] | c # r \<Rightarrow> if c = CHR ''.'' then dropWhile isDigit r else r1)
      in if ip = [] \<and> fp = [] then None
         else Some (scale (of_nat (digitsValue (ip @ fp)) / 10 ^ length fp) (exponentPart r2)))"

definition parseFloat :: "string \<Rightarrow> number" where
  "parseFloat s =
     (let t = dropWhile isWhiteSpace s;
          negative = (case t of [] \<Rightarrow> False | c # r \<Rightarrow> c = CHR ''-'');
          u = (case t of [] \<Rightarrow> [] | c # r \<Rightarrow> if c = CHR ''-'' \<or> c = CHR ''+'' then r else t)
      in if take 8 u = ''Infinity'' then Infinity negative
         else (case parseUnsigned u of
                 None \<Rightarrow> NaN
               | Some x \<Rightarrow> Num (if negative then - x else x)))"

definition isNaN :: "number \<Rightarrow> bool" where
  "isNaN x = (x = NaN)"

subsection \<open>The loop over the lines and the function\<close>

text \<open>Lines 64--80, with the array \<open>places\<close> as the accumulator \<open>found\<close> that \<open>push\<close> extends.  The pattern has
  four groups; the last branch is there for totality.\<close>

fun parseLines :: "string list \<Rightarrow> MapPlace list \<Rightarrow> MapPlace list" where
  "parseLines [] found = found"
| "parseLines (line # rest) found =
     (case regexSearch markerRegex line of
        None \<Rightarrow> parseLines rest found
      | Some groups \<Rightarrow>
          (case groups of
             [g1, g2, g3, g4] \<Rightarrow>
               if \<not> isNaN (parseFloat g2) \<and> \<not> isNaN (parseFloat g3)
               then parseLines rest
                      (found @ [\<lparr>title = trim g1, lat = parseFloat g2, lng = parseFloat g3,
                                  description = trim g4\<rparr>])
               else parseLines rest found
           | _ \<Rightarrow> parseLines rest found))"

text \<open>Lines 20--22.\<close>

definition instruction :: "bool \<Rightarrow> string" where
  "instruction isWheelchairAccessible =
     (if isWheelchairAccessible
      then ''Prioritize wheelchair accessible locations with ramps and wide entrances.''
      else '''')"

text \<open>What line 40 sends (the prompt is built from these four values), and the text that
  line 57 keeps: an undefined or empty \<open>response.text\<close> is replaced.\<close>

definition requestOf :: "string \<Rightarrow> number \<Rightarrow> number \<Rightarrow> bool \<Rightarrow> DirectionsRequest" where
  "requestOf query latitude longitude isWheelchairAccessible =
     \<lparr>req_query = query, req_latitude = latitude, req_longitude = longitude,
      req_instruction = instruction isWheelchairAccessible\<rparr>"

definition textOf :: "GenerateContentResponse \<Rightarrow> string" where
  "textOf response =
     (if truthy (response_text response) then the (response_text response)
      else ''I found some information.'')"

text \<open>Lines 18--82, the body of the \<open>try\<close> block.  The call of the model is the parameter
  \<open>generateContent\<close>; it is the step that can fail.\<close>

definition directionsBody :: "(DirectionsRequest \<Rightarrow> error + GenerateContentResponse)
    \<Rightarrow> string \<Rightarrow> number \<Rightarrow> number \<Rightarrow> bool \<Rightarrow> error + MapResult" where
  "directionsBody generateContent query latitude longitude isWheelchairAccessible =
     (case generateContent (requestOf query latitude longitude isWheelchairAccessible) of
        Inl e \<Rightarrow> Inl e
      | Inr response \<Rightarrow>
          Inr \<lparr>result_text = textOf response,
               places = parseLines (split_lines (textOf response)) []\<rparr>)"

text \<open>Lines 17--87: the \<open>catch\<close> turns every failure into the fallback result, so the
  promise is fulfilled (\<open>Inr\<close>) also then.\<close>

definition fallbackResult :: MapResult where
  "fallbackResult = \<lparr>result_text = ''Sorry, I couldn't fetch directions at this moment.'', places = []\<rparr>"

definition askForDirections :: "(DirectionsRequest \<Rightarrow> error + GenerateContentResponse)
    \<Rightarrow> string \<Rightarrow> number \<Rightarrow> number \<Rightarrow> bool \<Rightarrow> error + MapResult" where
  "askForDirections generateContent query latitude longitude isWheelchairAccessible =
     (case directionsBody generateContent query latitude longitude isWheelchairAccessible of
        Inl e \<Rightarrow> Inr fallbackResult
      | Inr result \<Rightarrow> Inr result)"

text \<open>
  The specification's reading of the loop, in its words: one pass in which a line yields a
  place exactly if it matches the pattern and both coordinates parse as numbers.
\<close>

definition placeOfLine :: "string \<Rightarrow> MapPlace option" where
  "placeOfLine line =
     (case regexSearch markerRegex line of
        Some [name, latitude, longitude, descr] \<Rightarrow>
          if isNaN (parseFloat latitude) \<or> isNaN (parseFloat longitude) then None
          else Some \<lparr>title = trim name, lat = parseFloat latitude, lng = parseFloat longitude,
                      description = trim descr\<rparr>
      | _ \<Rightarrow> None)"

text \<open>
  The pattern read as a language, without any order of search: a string is accepted if it
  starts with the literals and repetitions of the pattern, one after the other.  A line
  matches if the pattern accepts it from some position on.
\<close>

primrec accepts :: "item list \<Rightarrow> string \<Rightarrow> bool" where
  "accepts [] = (\<lambda>s. True)"
| "accepts (it # rest) = (\<lambda>s.
     case it of
       Lit l \<Rightarrow> (\<exists>t. s = l @ t \<and> accepts rest t)
     | Rep cls q lo capture \<Rightarrow>
         (\<exists>u t. s = u @ t \<and> list_all cls u \<and> lo \<le> length u \<and> accepts rest t))"

definition matchesPattern :: "item list \<Rightarrow> string \<Rightarrow> bool" where
  "matchesPattern r line = (\<exists>pre t. line = pre @ t \<and> accepts r t)"

text \<open>The number of capturing groups of a pattern.\<close>

primrec groupCount :: "item list \<Rightarrow> nat" where
  "groupCount [] = 0"
| "groupCount (it # rest) =
     (case it of Lit l \<Rightarrow> 0 | Rep cls q lo capture \<Rightarrow> if capture then 1 else 0) + groupCount rest"

text \<open>Example data: a reply with a summary, the example line of the prompt and a line
  whose latitude does not parse; a model that answers with it, and one that fails.\<close>

definition sampleLine :: string where
  "sampleLine = ''MARKER: Central Station | 40.7128 | -74.0060 | Main accessible entrance on 42nd St.''"

definition sampleText :: string where
  "sampleText = ''Here you go:'' @ [CHR 0x0A] @ sampleLine @ [CHR 0x0A] @ ''MARKER: Nowhere | - | 3 | x''"

definition samplePlace :: MapPlace where
  "samplePlace = \<lparr>title = ''Central Station'', lat = Num (50891 / 1250), lng = Num (- (37003 / 500)),
     description = ''Main accessible entrance on 42nd St.''\<rparr>"

definition answering :: "DirectionsRequest \<Rightarrow> error + GenerateContentResponse" where
  "answering request = Inr \<lparr>response_text = Some sampleText\<rparr>"

definition failing :: "DirectionsRequest \<Rightarrow> error + GenerateContentResponse" where
  "failing request = Inl RequestError"

section \<open>Properties of the output audio queue\<close>

lemma markStopped_idem: "markStopped (markStopped n) = markStopped n"
  by (simp add: markStopped_def)

lemma tryStop_eq:
  "tryStop h store = (\<lambda>k. if k = h then map_option markStopped (store k) else store k)"
  by (auto simp: tryStop_def source_stop_def markStopped_def fun_eq_iff split: option.splits)

lemma fold_tryStop_eq:
  "fold tryStop hs store = (\<lambda>k. if k \<in> set hs then map_option markStopped (store k) else store k)"
proof (induction hs arbitrary: store)
  case Nil
  show ?case by simp
next
  case (Cons h hs)
  have "fold tryStop (h # hs) store = fold tryStop hs (tryStop h store)"
    by simp
  also have "\<dots> = (\<lambda>k. if k \<in> set hs then map_option markStopped (tryStop h store k)
                        else tryStop h store k)"
    by (rule Cons.IH)
  also have "\<dots> = (\<lambda>k. if k \<in> set (h # hs) then map_option markStopped (store k) else store k)"
    unfolding tryStop_eq
    by (auto simp: fun_eq_iff option.map_comp comp_def markStopped_idem)
  finally show ?case .
qed

lemma nodes_stopAudioOutput:
  "nodes (stopAudioOutput s) h =
     (if h \<in> set (audioSources s) then map_option markStopped (nodes s h) else nodes s h)"
  by (simp add: stopAudioOutput_def Let_def fold_tryStop_eq split: option.splits)

lemma startTime_stopAudioOutput: "startTime (stopAudioOutput s) h = startTime s h"
  by (simp add: startTime_def nodes_stopAudioOutput markStopped_def split: option.splits)

lemma fields_stopAudioOutput:
  "audioSources (stopAudioOutput s) = []"
  "outputAudioContext (stopAudioOutput s) = outputAudioContext s"
  "allocated (stopAudioOutput s) = allocated s"
  "contextsCreated (stopAudioOutput s) = contextsCreated s"
  "sessionPromise (stopAudioOutput s) = sessionPromise s"
  "nextStartTime (stopAudioOutput s) =
     (case outputAudioContext s of None \<Rightarrow> nextStartTime s | Some ctx \<Rightarrow> currentTime ctx)"
  by (simp_all add: stopAudioOutput_def Let_def split: option.splits)

lemma audio_scheduled:
  assumes "outputAudioContext s = Some ctx" "truthy (audioData m)"
  shows "handleAudioOutput m (Inr b) s =
    (None, s\<lparr>nextStartTime := max (nextStartTime s) (currentTime ctx) + duration b,
             audioSources := audioSources s @ [allocated s],
             nodes := (nodes s)(allocated s \<mapsto>
                \<lparr>node_context = ctx_id ctx, buffer = b,
                 startWhen = Some (max (nextStartTime s) (currentTime ctx)), stopCalled = False\<rparr>),
             allocated := Suc (allocated s)\<rparr>)"
  using assms by (simp add: handleAudioOutput_def Let_def)

lemma audio_rejected:
  assumes "outputAudioContext s = Some ctx" "truthy (audioData m)"
  shows "handleAudioOutput m (Inl e) s =
    (Some e, s\<lparr>nextStartTime := max (nextStartTime s) (currentTime ctx)\<rparr>)"
  using assms by (simp add: handleAudioOutput_def Let_def)

lemma audio_skipped:
  assumes "outputAudioContext s = None \<or> \<not> truthy (audioData m)"
  shows "handleAudioOutput m decoded s = (None, s)"
  using assms by (auto simp add: handleAudioOutput_def Let_def split: option.splits)

lemma handleMessage_plain:
  "\<not> interrupted m \<Longrightarrow> handleMessage m decoded s = handleAudioOutput m decoded s"
  by (simp add: handleMessage_def split: prod.splits option.splits)

lemma enqueue_step:
  assumes "outputAudioContext s = Some ctx" "truthy (audioData m)" "\<not> interrupted m"
  shows "snd (handleMessage m (Inr b) s) =
     s\<lparr>nextStartTime := max (nextStartTime s) (currentTime ctx) + duration b,
       audioSources := audioSources s @ [allocated s],
       nodes := (nodes s)(allocated s \<mapsto>
          \<lparr>node_context = ctx_id ctx, buffer = b,
           startWhen = Some (max (nextStartTime s) (currentTime ctx)), stopCalled = False\<rparr>),
       allocated := Suc (allocated s)\<rparr>"
  using assms by (simp add: handleMessage_plain audio_scheduled)

lemma enqueueAll_closed:
  assumes "outputAudioContext s = Some ctx"
    and "\<forall>(m, b) \<in> set segs. truthy (audioData m) \<and> \<not> interrupted m \<and> 0 \<le> duration b"
  shows "outputAudioContext (enqueueAll segs s) = Some ctx
    \<and> allocated (enqueueAll segs s) = allocated s + length segs
    \<and> (\<forall>h < allocated s. nodes (enqueueAll segs s) h = nodes s h)
    \<and> nextStartTime (enqueueAll segs s) =
        (if segs = [] then nextStartTime s
         else max (nextStartTime s) (currentTime ctx) + sum_list (map (\<lambda>(m, b). duration b) segs))
    \<and> (\<forall>i < length segs. startTime (enqueueAll segs s) (allocated s + i) =
          Some (max (nextStartTime s) (currentTime ctx)
                + sum_list (map (\<lambda>(m, b). duration b) (take i segs))))"
  using assms
proof (induction segs arbitrary: s)
  case Nil
  then show ?case by simp
next
  case (Cons mb rest)
  obtain m b where mb: "mb = (m, b)" by (cases mb)
  define s1 where "s1 = snd (handleMessage m (Inr b) s)"
  define M where "M = max (nextStartTime s) (currentTime ctx)"
  from Cons.prems mb have hm: "truthy (audioData m)" "\<not> interrupted m" "0 \<le> duration b"
    by auto
  have s1: "s1 = s\<lparr>nextStartTime := M + duration b,
       audioSources := audioSources s @ [allocated s],
       nodes := (nodes s)(allocated s \<mapsto>
          \<lparr>node_context = ctx_id ctx, buffer = b, startWhen = Some M, stopCalled = False\<rparr>),
       allocated := Suc (allocated s)\<rparr>"
    unfolding s1_def M_def by (rule enqueue_step [OF Cons.prems(1) hm(1) hm(2)])
  have ctx1: "outputAudioContext s1 = Some ctx" by (simp add: s1 Cons.prems(1))
  have rest: "\<forall>(m, b) \<in> set rest. truthy (audioData m) \<and> \<not> interrupted m \<and> 0 \<le> duration b"
    using Cons.prems(2) by simp
  note IH = Cons.IH [OF ctx1 rest]
  have M1: "max (nextStartTime s1) (currentTime ctx) = M + duration b"
    using hm(3) by (simp add: s1 M_def max_def)
  have fin: "enqueueAll (mb # rest) s = enqueueAll rest s1"
    by (simp add: mb s1_def)
  have a1: "allocated s1 = Suc (allocated s)" by (simp add: s1)
  have c1: "outputAudioContext (enqueueAll (mb # rest) s) = Some ctx"
    using IH unfolding fin by simp
  have c2: "allocated (enqueueAll (mb # rest) s) = allocated s + length (mb # rest)"
    using IH unfolding fin by (simp add: a1)
  have old: "\<forall>h < allocated s1. nodes (enqueueAll rest s1) h = nodes s1 h"
    using IH by blast
  have c3: "\<forall>h < allocated s. nodes (enqueueAll (mb # rest) s) h = nodes s h"
    using old unfolding fin by (simp add: a1 s1)
  have c4: "nextStartTime (enqueueAll (mb # rest) s) =
      M + sum_list (map (\<lambda>(m, b). duration b) (mb # rest))"
  proof (cases "rest = []")
    case True
    then show ?thesis unfolding fin by (simp add: mb s1)
  next
    case False
    then show ?thesis using IH unfolding fin by (simp add: mb M1)
  qed
  have c5: "startTime (enqueueAll (mb # rest) s) (allocated s + i) =
          Some (M + sum_list (map (\<lambda>(m, b). duration b) (take i (mb # rest))))"
    if "i < length (mb # rest)" for i
  proof (cases i)
    case 0
    have "nodes (enqueueAll rest s1) (allocated s) = nodes s1 (allocated s)"
      using old by (simp add: a1)
    then show ?thesis unfolding fin by (simp add: 0 startTime_def s1)
  next
    case (Suc j)
    with that have "j < length rest" by simp
    with IH have "startTime (enqueueAll rest s1) (allocated s1 + j) =
        Some (max (nextStartTime s1) (currentTime ctx)
              + sum_list (map (\<lambda>(m, b). duration b) (take j rest)))"
      by blast
    then show ?thesis unfolding fin by (simp add: Suc a1 M1 mb)
  qed
  from c1 c2 c3 c4 c5 show ?case unfolding M_def by simp
qed

text \<open>
  Claim C1.  Segments enqueued back to back, with no advance of the device clock between
  the calls, play without gaps: the start time computed for segment \<open>i + 1\<close> is the start
  time computed for segment \<open>i\<close> plus the duration of segment \<open>i\<close>.  The witness below is
  the scenario of the specification: durations 1, 0.5 and 2 at clock 10 give the start
  times 10, 11 and 11.5 and leave the cursor at 13.5.
\<close>

theorem C1_gap_free_backlog:
  assumes "outputAudioContext s = Some ctx"
    and "\<forall>(m, b) \<in> set segs. truthy (audioData m) \<and> \<not> interrupted m \<and> 0 \<le> duration b"
    and "i < length segs"
  shows "\<exists>t. startTime (enqueueAll segs s) (allocated s + i) = Some t
      \<and> (i = 0 \<longrightarrow> t = max (nextStartTime s) (currentTime ctx))
      \<and> (Suc i < length segs \<longrightarrow>
            startTime (enqueueAll segs s) (allocated s + Suc i) = Some (t + duration (snd (segs ! i))))
      \<and> (Suc i = length segs \<longrightarrow>
            nextStartTime (enqueueAll segs s) = t + duration (snd (segs ! i)))"
proof -
  note cl = enqueueAll_closed [OF assms(1) assms(2)]
  let ?M = "max (nextStartTime s) (currentTime ctx)"
  let ?d = "\<lambda>(m, b). duration b"
  let ?t = "?M + sum_list (map ?d (take i segs))"
  have a: "startTime (enqueueAll segs s) (allocated s + i) = Some ?t"
    using cl assms(3) by blast
  have first: "i = 0 \<longrightarrow> ?t = ?M"
    by simp
  have step: "sum_list (map ?d (take (Suc i) segs)) =
      sum_list (map ?d (take i segs)) + duration (snd (segs ! i))"
    using assms(3) by (simp add: take_Suc_conv_app_nth split_beta)
  have b: "startTime (enqueueAll segs s) (allocated s + Suc i) = Some (?t + duration (snd (segs ! i)))"
    if "Suc i < length segs"
  proof -
    from cl that have "startTime (enqueueAll segs s) (allocated s + Suc i) =
        Some (?M + sum_list (map ?d (take (Suc i) segs)))"
      by blast
    with step show ?thesis by simp
  qed
  have c: "nextStartTime (enqueueAll segs s) = ?t + duration (snd (segs ! i))"
    if "Suc i = length segs"
  proof -
    from assms(3) have "segs \<noteq> []" by auto
    with cl have "nextStartTime (enqueueAll segs s) = ?M + sum_list (map ?d segs)"
      by simp
    moreover from that have "take (Suc i) segs = segs" by simp
    ultimately show ?thesis using step by simp
  qed
  from a first b c show ?thesis by blast
qed

lemmas ops = handleMessage_def handleAudioOutput_def stopAudioOutput_def connect_def
  disconnect_def advanceClock_def onended_def initial_def truthy_def Let_def
  tryStop_def source_stop_def startTime_def stopped_def

theorem C1_gap_free_backlog_witness:
  "outputAudioContext (clockAt 10) = Some \<lparr>ctx_id = 0, currentTime = 10, ctx_closed = False\<rparr>
   \<and> list_all (\<lambda>(m, b). truthy (audioData m) \<and> \<not> interrupted m \<and> 0 \<le> duration b) backlog
   \<and> length backlog = 3
   \<and> startTime (enqueueAll backlog (clockAt 10)) 0 = Some 10
   \<and> startTime (enqueueAll backlog (clockAt 10)) 1 = Some 11
   \<and> startTime (enqueueAll backlog (clockAt 10)) 2 = Some (23 / 2)
   \<and> nextStartTime (enqueueAll backlog (clockAt 10)) = 27 / 2"
proof -
  have c: "outputAudioContext (clockAt 10) = Some \<lparr>ctx_id = 0, currentTime = 10, ctx_closed = False\<rparr>"
    by (simp add: clockAt_def ops)
  have h: "\<forall>(m, b) \<in> set backlog. truthy (audioData m) \<and> \<not> interrupted m \<and> 0 \<le> duration b"
    by (simp add: backlog_def audioMessage_def seconds_def truthy_def)
  have a0: "allocated (clockAt 10) = 0" and n0: "nextStartTime (clockAt 10) = 0"
    by (simp_all add: clockAt_def ops)
  have l: "length backlog = 3"
    by (simp add: backlog_def)
  have d: "duration (snd (backlog ! 0)) = 1" "duration (snd (backlog ! 1)) = 1 / 2"
    "duration (snd (backlog ! 2)) = 2"
    by (simp_all add: backlog_def seconds_def)
  from C1_gap_free_backlog [OF c h, of 0] a0 n0 l d(1)
  have first: "startTime (enqueueAll backlog (clockAt 10)) 0 = Some 10"
    and second: "startTime (enqueueAll backlog (clockAt 10)) 1 = Some 11"
    by auto
  from C1_gap_free_backlog [OF c h, of 1] a0 l d(2) second
  have third: "startTime (enqueueAll backlog (clockAt 10)) 2 = Some (23 / 2)"
    by (auto simp: numeral_2_eq_2)
  from C1_gap_free_backlog [OF c h, of 2] a0 l d(3) third
  have last: "nextStartTime (enqueueAll backlog (clockAt 10)) = 27 / 2"
    by (auto simp: numeral_3_eq_3 numeral_2_eq_2)
  from h have "list_all (\<lambda>(m, b). truthy (audioData m) \<and> \<not> interrupted m \<and> 0 \<le> duration b) backlog"
    by (simp add: list_all_iff)
  with c l first second third last show ?thesis by blast
qed

lemma startTime_handleMessage_new:
  assumes "outputAudioContext s = Some ctx" "truthy (audioData m)"
  shows "startTime (snd (handleMessage m (Inr b) s)) (allocated s) =
      Some (max (nextStartTime s) (currentTime ctx))"
proof (cases "interrupted m")
  case True
  then have "snd (handleMessage m (Inr b) s) = stopAudioOutput (snd (handleAudioOutput m (Inr b) s))"
    by (simp add: handleMessage_def audio_scheduled [OF assms])
  then have "startTime (snd (handleMessage m (Inr b) s)) (allocated s) =
      startTime (snd (handleAudioOutput m (Inr b) s)) (allocated s)"
    by (simp only: startTime_stopAudioOutput)
  then show ?thesis
    by (simp add: audio_scheduled [OF assms] startTime_def)
next
  case False
  then show ?thesis
    by (simp add: handleMessage_plain audio_scheduled [OF assms] startTime_def)
qed

text \<open>
  Claim C2.  When the device clock has reached or passed the stored cursor, the segment
  enqueued now starts at the clock's value at the call, not at the stale cursor.  The
  witness is the scenario of the specification: a one-second segment started at 10, the
  next call at clock 12, and the second segment starts at 12.
\<close>

theorem C2_start_at_now:
  assumes "outputAudioContext s = Some ctx" and "truthy (audioData m)"
    and "nextStartTime s \<le> currentTime ctx"
  shows "startTime (snd (handleMessage m (Inr b) s)) (allocated s) = Some (currentTime ctx)"
proof -
  have "max (nextStartTime s) (currentTime ctx) = currentTime ctx"
    using assms(3) by (simp add: max_def)
  with startTime_handleMessage_new [OF assms(1) assms(2), of b] show ?thesis
    by simp
qed

theorem C2_start_at_now_witness:
  "outputAudioContext afterOneSecond = Some \<lparr>ctx_id = 0, currentTime = 12, ctx_closed = False\<rparr>
   \<and> truthy (audioData audioMessage)
   \<and> nextStartTime afterOneSecond = 11
   \<and> startTime afterOneSecond 0 = Some 10
   \<and> startTime (snd (handleMessage audioMessage (Inr (seconds 1)) afterOneSecond)) 1 = Some 12"
proof -
  have c: "outputAudioContext afterOneSecond = Some \<lparr>ctx_id = 0, currentTime = 12, ctx_closed = False\<rparr>"
    by (simp add: afterOneSecond_def clockAt_def audioMessage_def seconds_def ops)
  have t: "truthy (audioData audioMessage)"
    by (simp add: audioMessage_def truthy_def)
  have n: "nextStartTime afterOneSecond = 11"
    by (simp add: afterOneSecond_def clockAt_def audioMessage_def seconds_def ops)
  have a: "allocated afterOneSecond = 1"
    by (simp add: afterOneSecond_def clockAt_def audioMessage_def seconds_def ops)
  have f: "startTime afterOneSecond 0 = Some 10"
    by (simp add: afterOneSecond_def clockAt_def audioMessage_def seconds_def ops)
  have le: "nextStartTime afterOneSecond \<le> currentTime \<lparr>ctx_id = 0, currentTime = 12, ctx_closed = False\<rparr>"
    by (simp add: n)
  from C2_start_at_now [OF c t le, of "seconds 1"] a
  have "startTime (snd (handleMessage audioMessage (Inr (seconds 1)) afterOneSecond)) 1 = Some 12"
    by simp
  with c t n f show ?thesis by blast
qed

lemma stopAudioOutput_cursor_irrelevant:
  "outputAudioContext s = Some ctx \<Longrightarrow> stopAudioOutput (s\<lparr>nextStartTime := x\<rparr>) = stopAudioOutput s"
  by (simp add: stopAudioOutput_def Let_def)

text \<open>
  Claim C3.  After \<open>stopAudioOutput\<close> on a service that has an output context: every handle
  of the active set has been stopped, the active set is empty, the cursor equals the
  device clock, the state does not depend on the cursor before the interruption, and the
  next segment, enqueued after the clock has moved on by any \<open>d \<ge> 0\<close>, starts at the
  clock's value at that call.
\<close>

theorem C3_interrupt:
  assumes "outputAudioContext s = Some ctx" and "sourcesStarted s"
  shows "(\<forall>h \<in> set (audioSources s). stopped (stopAudioOutput s) h)
    \<and> audioSources (stopAudioOutput s) = []
    \<and> nextStartTime (stopAudioOutput s) = currentTime ctx
    \<and> (\<forall>x. stopAudioOutput (s\<lparr>nextStartTime := x\<rparr>) = stopAudioOutput s)
    \<and> (\<forall>d m b. 0 \<le> d \<and> truthy (audioData m) \<longrightarrow>
          startTime (snd (handleMessage m (Inr b) (advanceClock d (stopAudioOutput s))))
            (allocated (advanceClock d (stopAudioOutput s)))
          = map_option currentTime (outputAudioContext (advanceClock d (stopAudioOutput s))))"
proof -
  have p1: "\<forall>h \<in> set (audioSources s). stopped (stopAudioOutput s) h"
    using assms(2)
    by (auto simp: sourcesStarted_def stopped_def startTime_def nodes_stopAudioOutput
          markStopped_def split: option.splits)
  have p2: "audioSources (stopAudioOutput s) = []"
    by (simp add: fields_stopAudioOutput)
  have p3: "nextStartTime (stopAudioOutput s) = currentTime ctx"
    by (simp add: fields_stopAudioOutput assms(1))
  have p4: "\<forall>x. stopAudioOutput (s\<lparr>nextStartTime := x\<rparr>) = stopAudioOutput s"
    using stopAudioOutput_cursor_irrelevant [OF assms(1)] by blast
  have p5: "startTime (snd (handleMessage m (Inr b) (advanceClock d (stopAudioOutput s))))
            (allocated (advanceClock d (stopAudioOutput s)))
          = map_option currentTime (outputAudioContext (advanceClock d (stopAudioOutput s)))"
    if "0 \<le> d" "truthy (audioData m)" for d m b
  proof -
    let ?s' = "advanceClock d (stopAudioOutput s)"
    let ?c' = "if ctx_closed ctx then ctx else ctx\<lparr>currentTime := currentTime ctx + d\<rparr>"
    have c': "outputAudioContext ?s' = Some ?c'"
      by (simp add: advanceClock_def fields_stopAudioOutput assms(1))
    have n': "nextStartTime ?s' = currentTime ctx"
      by (simp add: advanceClock_def p3)
    have "nextStartTime ?s' \<le> currentTime ?c'"
      using that(1) by (simp add: n')
    then have "max (nextStartTime ?s') (currentTime ?c') = currentTime ?c'"
      by (simp add: max_def)
    with startTime_handleMessage_new [OF c' that(2), of b] show ?thesis
      by (simp add: c')
  qed
  from p1 p2 p3 p4 p5 show ?thesis by blast
qed

lemmas ex = clockAt_def audioMessage_def seconds_def twoScheduled_def oneScheduled_def tornDown_def

theorem C3_interrupt_witness:
  "outputAudioContext twoScheduled = Some \<lparr>ctx_id = 0, currentTime = 21 / 2, ctx_closed = False\<rparr>
   \<and> sourcesStarted twoScheduled
   \<and> audioSources twoScheduled = [0, 1]
   \<and> nextStartTime twoScheduled = 12
   \<and> stopped (stopAudioOutput twoScheduled) 0
   \<and> stopped (stopAudioOutput twoScheduled) 1
   \<and> audioSources (stopAudioOutput twoScheduled) = []
   \<and> nextStartTime (stopAudioOutput twoScheduled) = 21 / 2
   \<and> startTime (snd (handleMessage audioMessage (Inr (seconds 1))
          (advanceClock (1/4) (stopAudioOutput twoScheduled)))) 2 = Some (43 / 4)"
proof -
  have c: "outputAudioContext twoScheduled = Some \<lparr>ctx_id = 0, currentTime = 21 / 2, ctx_closed = False\<rparr>"
    by (simp add: ex ops)
  have a: "audioSources twoScheduled = [0, 1]"
    by (simp add: ex ops)
  have st: "sourcesStarted twoScheduled"
    unfolding sourcesStarted_def a by (simp add: ex ops)
  have n: "nextStartTime twoScheduled = 12"
    by (simp add: ex ops)
  have al: "allocated (advanceClock (1/4) (stopAudioOutput twoScheduled)) = 2"
    by (simp add: advanceClock_def fields_stopAudioOutput) (simp add: ex ops)
  have oc: "outputAudioContext (advanceClock (1/4) (stopAudioOutput twoScheduled))
      = Some \<lparr>ctx_id = 0, currentTime = 43 / 4, ctx_closed = False\<rparr>"
    by (simp add: advanceClock_def fields_stopAudioOutput c)
  have t: "(0::real) \<le> 1/4 \<and> truthy (audioData audioMessage)"
    by (simp add: audioMessage_def truthy_def)
  note r = C3_interrupt [OF c st]
  from r t have "startTime (snd (handleMessage audioMessage (Inr (seconds 1))
          (advanceClock (1/4) (stopAudioOutput twoScheduled))))
        (allocated (advanceClock (1/4) (stopAudioOutput twoScheduled)))
      = map_option currentTime (outputAudioContext (advanceClock (1/4) (stopAudioOutput twoScheduled)))"
    by blast
  then have p5: "startTime (snd (handleMessage audioMessage (Inr (seconds 1))
          (advanceClock (1/4) (stopAudioOutput twoScheduled)))) 2 = Some (43 / 4)"
    by (simp add: al oc)
  from r a have p1: "stopped (stopAudioOutput twoScheduled) 0 \<and> stopped (stopAudioOutput twoScheduled) 1"
    by simp
  from r have p3: "audioSources (stopAudioOutput twoScheduled) = []
      \<and> nextStartTime (stopAudioOutput twoScheduled) = 21 / 2"
    by simp
  from c st a n p1 p3 p5 show ?thesis by blast
qed

lemma fire_mono:
  assumes "enabled e s" "\<not> resetting e"
  shows "nextStartTime s \<le> nextStartTime (fire e s)"
proof (cases e)
  case (Message m decoded)
  with assms have ni: "\<not> interrupted m" by (simp add: resetting_def)
  show ?thesis
  proof (cases "outputAudioContext s")
    case None
    then show ?thesis by (simp add: Message handleMessage_plain [OF ni] audio_skipped)
  next
    case (Some ctx)
    show ?thesis
    proof (cases "truthy (audioData m)")
      case False
      then show ?thesis by (simp add: Message handleMessage_plain [OF ni] audio_skipped)
    next
      case True
      show ?thesis
      proof (cases decoded)
        case (Inl err)
        then show ?thesis
          by (simp add: Message handleMessage_plain [OF ni] audio_rejected [OF Some True])
      next
        case (Inr b)
        with assms(1) Message have "0 \<le> duration b" by simp
        then show ?thesis
          by (simp add: Message Inr handleMessage_plain [OF ni] audio_scheduled [OF Some True] max_def)
      qed
    qed
  qed
qed (use assms in \<open>simp_all add: connect_def advanceClock_def onended_def resetting_def\<close>)

text \<open>
  Claim C6.  Along every execution that contains neither an interruption nor a
  \<open>disconnect\<close>, the cursor does not decrease.
\<close>

theorem C6_cursor_monotone:
  assumes "exec evs s = Some s'" and "\<forall>e \<in> set evs. \<not> resetting e"
  shows "nextStartTime s \<le> nextStartTime s'"
  using assms
proof (induction evs arbitrary: s)
  case Nil
  then show ?case by simp
next
  case (Cons e evs)
  from Cons.prems(1) have en: "enabled e s" and rest: "exec evs (fire e s) = Some s'"
    by (simp_all split: if_splits)
  from Cons.prems(2) have "\<not> resetting e" and "\<forall>e \<in> set evs. \<not> resetting e"
    by simp_all
  with fire_mono [OF en] Cons.IH [OF rest] show ?case by simp
qed

theorem C6_cursor_monotone_witness:
  "(\<exists>s'. exec quietRun initial = Some s' \<and> nextStartTime s' = 12)
   \<and> list_all (\<lambda>e. \<not> resetting e) quietRun
   \<and> nextStartTime initial \<le> 12"
proof -
  obtain s' where s': "exec quietRun initial = Some s'"
    by (simp add: quietRun_def ex ops)
  have v: "nextStartTime s' = 12"
    using s' by (auto simp add: quietRun_def ex ops)
  have q: "\<forall>e \<in> set quietRun. \<not> resetting e"
    by (simp add: quietRun_def resetting_def ex)
  from q have "list_all (\<lambda>e. \<not> resetting e) quietRun"
    by (simp add: list_all_iff)
  with C6_cursor_monotone [OF s' q] v s' show ?thesis by simp
qed

text \<open>
  Claim C4 as stated fails: with one segment scheduled, \<open>disconnect\<close> leaves its handle in
  the active set and unstopped, where \<open>interrupt()\<close> followed by setting the cursor to 0
  stops it and empties the set.
\<close>

theorem C4_counterexample:
  "audioSources oneScheduled = [0]
   \<and> audioSources (disconnected oneScheduled) = [0]
   \<and> \<not> stopped (disconnected oneScheduled) 0
   \<and> audioSources (interruptThenZero oneScheduled) = []
   \<and> stopped (interruptThenZero oneScheduled) 0"
  by (simp add: interruptThenZero_def ex ops)

text \<open>
  Claim C4, as amended.  A \<open>disconnect\<close> whose \<open>close()\<close> calls go through sets the cursor
  to 0 and closes the output context; it stops no handle and leaves the active set as it
  was.  (When a \<open>close()\<close> call rejects, \<open>disconnect\<close> rejects and leaves the queue as it
  was.)  \<open>interrupt()\<close> followed by setting the cursor to 0 also ends with cursor 0, but
  with an empty active set; it leaves the source nodes untouched only when the active set
  was empty before.
\<close>

theorem C4_disconnect_keeps_sources:
  "fst (disconnect None s) = None
   \<and> disconnect (Some e) s = (Some e, s)
   \<and> nextStartTime (disconnected s) = 0
   \<and> audioSources (disconnected s) = audioSources s
   \<and> nodes (disconnected s) = nodes s
   \<and> outputAudioContext (disconnected s)
        = map_option (\<lambda>ctx. ctx\<lparr>ctx_closed := True\<rparr>) (outputAudioContext s)
   \<and> nextStartTime (interruptThenZero s) = 0
   \<and> audioSources (interruptThenZero s) = []
   \<and> (audioSources s = [] \<longrightarrow> nodes (interruptThenZero s) = nodes s)"
proof -
  have a: "audioSources (interruptThenZero s) = []"
    by (simp add: interruptThenZero_def fields_stopAudioOutput)
  have n: "audioSources s = [] \<Longrightarrow> nodes (interruptThenZero s) = nodes s"
    by (simp add: interruptThenZero_def fun_eq_iff nodes_stopAudioOutput)
  show ?thesis
    using a n by (simp add: disconnect_def interruptThenZero_def)
qed

theorem C4_disconnect_keeps_sources_witness:
  "audioSources (clockAt 10) = []
   \<and> nextStartTime oneScheduled = 11
   \<and> nextStartTime (disconnected oneScheduled) = 0
   \<and> audioSources (disconnected oneScheduled) = [0]
   \<and> audioSources (interruptThenZero oneScheduled) = []
   \<and> audioSources (disconnected (clockAt 10)) = audioSources (interruptThenZero (clockAt 10))
   \<and> nodes (disconnected (clockAt 10)) = nodes (interruptThenZero (clockAt 10))"
proof -
  have a: "audioSources oneScheduled = [0]" "nextStartTime oneScheduled = 11"
    "audioSources (clockAt 10) = []"
    by (simp_all add: ex ops)
  note one = C4_disconnect_keeps_sources [of oneScheduled]
  note none = C4_disconnect_keeps_sources [of "clockAt 10"]
  from one a have p1: "nextStartTime (disconnected oneScheduled) = 0
      \<and> audioSources (disconnected oneScheduled) = [0]
      \<and> audioSources (interruptThenZero oneScheduled) = []"
    by simp
  from none a have p2: "audioSources (disconnected (clockAt 10)) = audioSources (interruptThenZero (clockAt 10))
      \<and> nodes (disconnected (clockAt 10)) = nodes (interruptThenZero (clockAt 10))"
    by simp
  from a p1 p2 show ?thesis by blast
qed

text \<open>
  Claim C5 as stated fails: after \<open>connect\<close>, ten seconds and \<open>disconnect\<close>, a message with
  audio data moves the cursor from 0 to 11 and puts a handle into the active set.
\<close>

theorem C5_counterexample:
  "nextStartTime tornDown = 0
   \<and> audioSources tornDown = []
   \<and> fst (handleMessage audioMessage (Inr (seconds 1)) tornDown) = None
   \<and> nextStartTime (snd (handleMessage audioMessage (Inr (seconds 1)) tornDown)) = 11
   \<and> audioSources (snd (handleMessage audioMessage (Inr (seconds 1)) tornDown)) = [0]
   \<and> snd (handleMessage audioMessage (Inr (seconds 1)) tornDown) \<noteq> tornDown"
proof -
  have a: "nextStartTime tornDown = 0" "audioSources tornDown = []"
    "fst (handleMessage audioMessage (Inr (seconds 1)) tornDown) = None"
    "nextStartTime (snd (handleMessage audioMessage (Inr (seconds 1)) tornDown)) = 11"
    "audioSources (snd (handleMessage audioMessage (Inr (seconds 1)) tornDown)) = [0]"
    by (simp_all add: ex ops)
  then have "snd (handleMessage audioMessage (Inr (seconds 1)) tornDown) \<noteq> tornDown"
    by auto
  with a show ?thesis by blast
qed

text \<open>
  Claim C5, as amended.  After \<open>disconnect\<close> the audio branch of \<open>handleMessage\<close> is a
  no-op only if the service never had an output context or the message carries no audio
  data.  Otherwise the closed context is still there: with a decoded buffer the call
  raises no error, schedules the segment at \<open>max 0 currentTime\<close>, adds its handle to the
  active set and leaves the cursor at that start time plus the duration.
\<close>

theorem C5_enqueue_after_disconnect:
  "(outputAudioContext s = None \<or> \<not> truthy (audioData m)
      \<longrightarrow> handleAudioOutput m decoded (disconnected s) = (None, disconnected s))
   \<and> (outputAudioContext s = Some ctx \<and> truthy (audioData m)
      \<longrightarrow> fst (handleAudioOutput m (Inr b) (disconnected s)) = None
        \<and> nextStartTime (snd (handleAudioOutput m (Inr b) (disconnected s)))
            = max 0 (currentTime ctx) + duration b
        \<and> audioSources (snd (handleAudioOutput m (Inr b) (disconnected s)))
            = audioSources s @ [allocated s]
        \<and> startTime (snd (handleAudioOutput m (Inr b) (disconnected s))) (allocated s)
            = Some (max 0 (currentTime ctx)))"
proof -
  have skip: "handleAudioOutput m decoded (disconnected s) = (None, disconnected s)"
    if "outputAudioContext s = None \<or> \<not> truthy (audioData m)"
  proof -
    from that have "outputAudioContext (disconnected s) = None \<or> \<not> truthy (audioData m)"
      by (auto simp: disconnect_def)
    then show ?thesis by (rule audio_skipped)
  qed
  have go: "fst (handleAudioOutput m (Inr b) (disconnected s)) = None
        \<and> nextStartTime (snd (handleAudioOutput m (Inr b) (disconnected s)))
            = max 0 (currentTime ctx) + duration b
        \<and> audioSources (snd (handleAudioOutput m (Inr b) (disconnected s)))
            = audioSources s @ [allocated s]
        \<and> startTime (snd (handleAudioOutput m (Inr b) (disconnected s))) (allocated s)
            = Some (max 0 (currentTime ctx))"
    if "outputAudioContext s = Some ctx" "truthy (audioData m)"
  proof -
    have c: "outputAudioContext (disconnected s) = Some (ctx\<lparr>ctx_closed := True\<rparr>)"
      using that(1) by (simp add: disconnect_def)
    show ?thesis
      by (simp add: audio_scheduled [OF c that(2)] startTime_def) (simp add: disconnect_def)
  qed
  from skip go show ?thesis by blast
qed

theorem C5_enqueue_after_disconnect_witness:
  "outputAudioContext (clockAt 10) = Some \<lparr>ctx_id = 0, currentTime = 10, ctx_closed = False\<rparr>
   \<and> truthy (audioData audioMessage)
   \<and> outputAudioContext initial = None
   \<and> handleAudioOutput audioMessage (Inr (seconds 1)) (disconnected initial) = (None, disconnected initial)
   \<and> nextStartTime (snd (handleAudioOutput audioMessage (Inr (seconds 1)) (disconnected (clockAt 10)))) = 11
   \<and> audioSources (snd (handleAudioOutput audioMessage (Inr (seconds 1)) (disconnected (clockAt 10)))) = [0]"
proof -
  have c: "outputAudioContext (clockAt 10) = Some \<lparr>ctx_id = 0, currentTime = 10, ctx_closed = False\<rparr>"
    and t: "truthy (audioData audioMessage)"
    and i: "outputAudioContext initial = None"
    and a: "audioSources (clockAt 10) = []" "allocated (clockAt 10) = 0"
    by (simp_all add: ex ops)
  from C5_enqueue_after_disconnect [of initial audioMessage "Inr (seconds 1)"] i
  have p1: "handleAudioOutput audioMessage (Inr (seconds 1)) (disconnected initial) = (None, disconnected initial)"
    by blast
  from C5_enqueue_after_disconnect [of "clockAt 10" audioMessage _ _ "seconds 1"] c t a
  have p2: "nextStartTime (snd (handleAudioOutput audioMessage (Inr (seconds 1)) (disconnected (clockAt 10)))) = 11
   \<and> audioSources (snd (handleAudioOutput audioMessage (Inr (seconds 1)) (disconnected (clockAt 10)))) = [0]"
    by (simp add: seconds_def)
  from c t i p1 p2 show ?thesis by blast
qed

text \<open>
  Claim C8.  For a handle whose playback is over, \<open>stop()\<close> raises no error and changes no
  other node; \<open>stopAudioOutput\<close> treats every other handle as it would if the finished
  handle had already been removed from the active set, stops every started handle of the
  set, empties the set and sets the cursor to the clock.
\<close>

theorem C8_stop_finished_handle:
  assumes "nodes s h = Some n" and "outputAudioContext s = Some ctx"
    and "playbackCompleted ctx n"
  shows "source_stop h (nodes s) = Inr ((nodes s)(h \<mapsto> n\<lparr>stopCalled := True\<rparr>))
    \<and> (\<forall>k. k \<noteq> h \<longrightarrow> tryStop h (nodes s) k = nodes s k)
    \<and> (\<forall>k. k \<noteq> h \<longrightarrow> nodes (stopAudioOutput s) k = nodes (stopAudioOutput (onended h s)) k)
    \<and> (\<forall>k \<in> set (audioSources s). startTime s k \<noteq> None \<longrightarrow> stopped (stopAudioOutput s) k)
    \<and> audioSources (stopAudioOutput s) = []
    \<and> nextStartTime (stopAudioOutput s) = currentTime ctx"
proof -
  from assms(3) have st: "startWhen n \<noteq> None"
    by (auto simp: playbackCompleted_def split: option.splits)
  have p1: "source_stop h (nodes s) = Inr ((nodes s)(h \<mapsto> n\<lparr>stopCalled := True\<rparr>))"
    using assms(1) st by (simp add: source_stop_def)
  have p2: "\<forall>k. k \<noteq> h \<longrightarrow> tryStop h (nodes s) k = nodes s k"
    by (simp add: tryStop_eq)
  have p3: "\<forall>k. k \<noteq> h \<longrightarrow> nodes (stopAudioOutput s) k = nodes (stopAudioOutput (onended h s)) k"
    by (simp add: nodes_stopAudioOutput onended_def)
  have p4: "\<forall>k \<in> set (audioSources s). startTime s k \<noteq> None \<longrightarrow> stopped (stopAudioOutput s) k"
    by (auto simp: stopped_def startTime_def nodes_stopAudioOutput markStopped_def
          split: option.splits)
  from p1 p2 p3 p4 show ?thesis
    by (simp add: fields_stopAudioOutput assms(2))
qed

lemma segment_same:
  "outputAudioContext s' = outputAudioContext s \<Longrightarrow> nodes s' h = nodes s h
     \<Longrightarrow> segment s' h = segment s h"
  by (simp add: segment_def split: option.splits)

lemma disjointIntervals_None [simp]:
  "disjointIntervals None j" "disjointIntervals i None"
  by (simp_all add: disjointIntervals_def split: option.splits prod.splits)

lemma wf_no_segments:
  assumes "storeFresh s" "sourcesStarted s" "\<And>h. segment s h = None"
  shows "wellFormed s"
  using assms by (simp add: wellFormed_def noOverlap_def cursorCovers_def)

lemma wf_initial: "wellFormed initial"
  by (simp add: wellFormed_def storeFresh_def sourcesStarted_def noOverlap_def cursorCovers_def
        initial_def)

lemma fields_connect:
  "nodes (connect t0 s) = nodes s" "audioSources (connect t0 s) = audioSources s"
  "allocated (connect t0 s) = allocated s" "nextStartTime (connect t0 s) = nextStartTime s"
  "contextsCreated (connect t0 s) = Suc (contextsCreated s)"
  "outputAudioContext (connect t0 s) =
     Some \<lparr>ctx_id = contextsCreated s, currentTime = t0, ctx_closed = False\<rparr>"
  by (simp_all add: connect_def)

lemma fields_disconnect:
  "nodes (disconnected s) = nodes s" "audioSources (disconnected s) = audioSources s"
  "allocated (disconnected s) = allocated s" "nextStartTime (disconnected s) = 0"
  "contextsCreated (disconnected s) = contextsCreated s"
  "outputAudioContext (disconnected s) =
     map_option (\<lambda>ctx. ctx\<lparr>ctx_closed := True\<rparr>) (outputAudioContext s)"
  by (simp_all add: disconnect_def)

lemma fields_advanceClock:
  "nodes (advanceClock d s) = nodes s" "audioSources (advanceClock d s) = audioSources s"
  "allocated (advanceClock d s) = allocated s" "nextStartTime (advanceClock d s) = nextStartTime s"
  "contextsCreated (advanceClock d s) = contextsCreated s"
  "outputAudioContext (advanceClock d s) =
     map_option (\<lambda>ctx. if ctx_closed ctx then ctx else ctx\<lparr>currentTime := currentTime ctx + d\<rparr>)
       (outputAudioContext s)"
  by (simp_all add: advanceClock_def)

lemma fields_onended:
  "nodes (onended h s) = nodes s" "audioSources (onended h s) = removeAll h (audioSources s)"
  "allocated (onended h s) = allocated s" "nextStartTime (onended h s) = nextStartTime s"
  "contextsCreated (onended h s) = contextsCreated s"
  "outputAudioContext (onended h s) = outputAudioContext s"
  by (simp_all add: onended_def)

lemma wf_connect:
  assumes "wellFormed s"
  shows "wellFormed (connect t0 s)"
proof (rule wf_no_segments)
  from assms have fr: "storeFresh s" and st: "sourcesStarted s"
    by (simp_all add: wellFormed_def)
  show "storeFresh (connect t0 s)"
    using fr by (auto simp: storeFresh_def fields_connect less_Suc_eq)
  show "sourcesStarted (connect t0 s)"
    using st by (simp add: sourcesStarted_def startTime_def fields_connect)
  show "segment (connect t0 s) h = None" for h
  proof (cases "nodes s h")
    case None
    then show ?thesis by (simp add: segment_def fields_connect)
  next
    case (Some n)
    with fr have "node_context n < contextsCreated s" by (auto simp: storeFresh_def)
    then show ?thesis by (simp add: segment_def fields_connect Some)
  qed
qed

lemma wf_disconnect:
  assumes "wellFormed s"
  shows "wellFormed (disconnected s)"
proof (rule wf_no_segments)
  from assms have fr: "storeFresh s" and st: "sourcesStarted s"
    by (simp_all add: wellFormed_def)
  show "storeFresh (disconnected s)"
    using fr by (auto simp: storeFresh_def fields_disconnect split: option.splits)
  show "sourcesStarted (disconnected s)"
    using st by (simp add: sourcesStarted_def startTime_def fields_disconnect)
  show "segment (disconnected s) h = None" for h
    by (cases "outputAudioContext s") (simp_all add: segment_def fields_disconnect)
qed

lemma wf_stopAudioOutput:
  assumes "wellFormed s"
  shows "wellFormed (stopAudioOutput s)"
proof -
  from assms have fr: "storeFresh s" by (simp add: wellFormed_def)
  have "storeFresh (stopAudioOutput s)"
    using fr
    by (auto simp: storeFresh_def fields_stopAudioOutput nodes_stopAudioOutput markStopped_def
          split: if_splits option.splits)
  then show ?thesis
    by (simp add: wellFormed_def sourcesStarted_def noOverlap_def cursorCovers_def
          fields_stopAudioOutput)
qed

lemma wf_shrink:
  assumes wf: "wellFormed s"
    and sub: "set (audioSources s') \<subseteq> set (audioSources s)"
    and same: "nodes s' = nodes s" "allocated s' = allocated s"
      "contextsCreated s' = contextsCreated s"
    and ctx: "case outputAudioContext s of None \<Rightarrow> outputAudioContext s' = None
              | Some c \<Rightarrow> \<exists>c'. outputAudioContext s' = Some c' \<and> ctx_id c' = ctx_id c
                    \<and> ctx_closed c' = ctx_closed c"
    and le: "nextStartTime s \<le> nextStartTime s'"
  shows "wellFormed s'"
proof -
  from wf have fr: "storeFresh s" and st: "sourcesStarted s" and no: "noOverlap s"
    and cc: "cursorCovers s"
    by (simp_all add: wellFormed_def)
  have seg: "segment s' k = segment s k" for k
    using ctx by (auto simp: segment_def same split: option.splits)
  have "storeFresh s'"
    using fr sub ctx by (auto simp: storeFresh_def same split: option.splits)
  moreover have "sourcesStarted s'"
    using st sub by (auto simp: sourcesStarted_def startTime_def same)
  moreover have "noOverlap s'"
    using no sub by (auto simp: noOverlap_def seg)
  moreover have "cursorCovers s'"
    unfolding cursorCovers_def
  proof
    fix h assume "h \<in> set (audioSources s')"
    with sub have "h \<in> set (audioSources s)" by blast
    with cc have "case segment s h of None \<Rightarrow> True | Some (a, b) \<Rightarrow> b \<le> nextStartTime s"
      by (simp add: cursorCovers_def)
    with le show "case segment s' h of None \<Rightarrow> True | Some (a, b) \<Rightarrow> b \<le> nextStartTime s'"
      by (auto simp: seg split: option.splits)
  qed
  ultimately show ?thesis by (simp add: wellFormed_def)
qed

lemma wf_advanceClock: "wellFormed s \<Longrightarrow> wellFormed (advanceClock d s)"
  by (erule wf_shrink) (auto simp: fields_advanceClock split: option.splits)

lemma wf_onended: "wellFormed s \<Longrightarrow> wellFormed (onended h s)"
  by (erule wf_shrink) (auto simp: fields_onended split: option.splits)

lemma wf_cursor_up: "wellFormed s \<Longrightarrow> nextStartTime s \<le> x \<Longrightarrow> wellFormed (s\<lparr>nextStartTime := x\<rparr>)"
  by (erule wf_shrink) (auto split: option.splits)

lemma wf_audio_scheduled:
  assumes wf: "wellFormed s" and c: "outputAudioContext s = Some ctx"
    and t: "truthy (audioData m)" and d: "0 \<le> duration b"
  shows "wellFormed (snd (handleAudioOutput m (Inr b) s))"
proof -
  define M where "M = max (nextStartTime s) (currentTime ctx)"
  define a where "a = allocated s"
  define s' where "s' = snd (handleAudioOutput m (Inr b) s)"
  from wf have fr: "storeFresh s" and st: "sourcesStarted s" and no: "noOverlap s"
    and cc: "cursorCovers s"
    by (simp_all add: wellFormed_def)
  have f: "nodes s' = (nodes s)(a \<mapsto> \<lparr>node_context = ctx_id ctx, buffer = b,
                 startWhen = Some M, stopCalled = False\<rparr>)"
    "audioSources s' = audioSources s @ [a]" "allocated s' = Suc a"
    "nextStartTime s' = M + duration b" "outputAudioContext s' = Some ctx"
    "contextsCreated s' = contextsCreated s"
    unfolding s'_def M_def a_def by (simp_all add: audio_scheduled [OF c t] c)
  have old_lt: "k < a" if "k \<in> set (audioSources s)" for k
    using fr that by (simp add: storeFresh_def a_def)
  have seg_old: "segment s' k = segment s k" if "k \<noteq> a" for k
    using that by (simp add: segment_def f c)
  have seg_new: "segment s' a = (if ctx_closed ctx then None else Some (M, M + duration b))"
    by (simp add: segment_def f)
  have le: "nextStartTime s \<le> M" by (simp add: M_def)
  have ends: "y \<le> M" if "k \<in> set (audioSources s)" "segment s k = Some (x, y)" for k x y
  proof -
    from cc that have "y \<le> nextStartTime s" by (auto simp: cursorCovers_def)
    with le show ?thesis by simp
  qed
  have "storeFresh s'"
    using fr c by (auto simp: storeFresh_def f a_def less_Suc_eq)
  moreover have "sourcesStarted s'"
    using st by (auto simp: sourcesStarted_def startTime_def f)
  moreover have "noOverlap s'"
    unfolding noOverlap_def
  proof (intro ballI impI)
    fix h1 h2
    assume h1: "h1 \<in> set (audioSources s')" and h2: "h2 \<in> set (audioSources s')"
      and ne: "h1 \<noteq> h2"
    consider (old) "h1 \<in> set (audioSources s)" "h2 \<in> set (audioSources s)"
      | (right) "h1 \<in> set (audioSources s)" "h2 = a"
      | (left) "h1 = a" "h2 \<in> set (audioSources s)"
      using h1 h2 ne by (auto simp: f)
    then show "disjointIntervals (segment s' h1) (segment s' h2)"
    proof cases
      case old
      then have "h1 \<noteq> a" "h2 \<noteq> a" using old_lt by auto
      with no old ne show ?thesis by (simp add: seg_old noOverlap_def)
    next
      case right
      then have "h1 \<noteq> a" using old_lt by auto
      then show ?thesis
        using ends [OF right(1)] right(2)
        by (auto simp: seg_old seg_new disjointIntervals_def split: option.splits)
    next
      case left
      then have "h2 \<noteq> a" using old_lt by auto
      then show ?thesis
        using ends [OF left(2)] left(1)
        by (auto simp: seg_old seg_new disjointIntervals_def split: option.splits)
    qed
  qed
  moreover have "cursorCovers s'"
    unfolding cursorCovers_def
  proof
    fix h assume "h \<in> set (audioSources s')"
    then consider (old) "h \<in> set (audioSources s)" | (new) "h = a"
      by (auto simp: f)
    then show "case segment s' h of None \<Rightarrow> True | Some (x, y) \<Rightarrow> y \<le> nextStartTime s'"
    proof cases
      case old
      then have "h \<noteq> a" using old_lt by auto
      then show ?thesis
        using ends [OF old] d by (fastforce simp: seg_old f split: option.splits)
    next
      case new
      then show ?thesis by (simp add: seg_new f)
    qed
  qed
  ultimately show ?thesis by (simp add: wellFormed_def s'_def)
qed

lemma wf_handleAudioOutput:
  assumes "wellFormed s" and "case decoded of Inl e \<Rightarrow> True | Inr b \<Rightarrow> 0 \<le> duration b"
  shows "wellFormed (snd (handleAudioOutput m decoded s))"
proof (cases "outputAudioContext s")
  case None
  then show ?thesis using assms(1) by (simp add: audio_skipped)
next
  case (Some ctx)
  show ?thesis
  proof (cases "truthy (audioData m)")
    case False
    then show ?thesis using assms(1) by (simp add: audio_skipped)
  next
    case True
    show ?thesis
    proof (cases decoded)
      case (Inl e)
      show ?thesis
        by (simp add: Inl audio_rejected [OF Some True] wf_cursor_up [OF assms(1)])
    next
      case (Inr b)
      with assms(2) have "0 \<le> duration b" by simp
      from wf_audio_scheduled [OF assms(1) Some True this] show ?thesis by (simp add: Inr)
    qed
  qed
qed

lemma snd_handleMessage:
  "snd (handleMessage m decoded s) =
     (if fst (handleAudioOutput m decoded s) = None \<and> interrupted m
      then stopAudioOutput (snd (handleAudioOutput m decoded s))
      else snd (handleAudioOutput m decoded s))"
  by (simp add: handleMessage_def split: prod.splits option.splits)

lemma wf_fire:
  assumes "enabled e s" "wellFormed s"
  shows "wellFormed (fire e s)"
proof (cases e)
  case (Message m decoded)
  with assms(1) have "case decoded of Inl e \<Rightarrow> True | Inr b \<Rightarrow> 0 \<le> duration b" by simp
  from wf_handleAudioOutput [OF assms(2) this, of m] show ?thesis
    by (simp add: Message snd_handleMessage wf_stopAudioOutput)
next
  case (Disconnect closing)
  show ?thesis
  proof (cases closing)
    case None
    with wf_disconnect [OF assms(2)] show ?thesis by (simp add: Disconnect)
  next
    case (Some e)
    with assms(2) show ?thesis by (simp add: Disconnect disconnect_def)
  qed
qed (use assms(2) in \<open>simp_all add: wf_connect wf_advanceClock wf_onended\<close>)

lemma wf_exec: "exec evs s = Some s' \<Longrightarrow> wellFormed s \<Longrightarrow> wellFormed s'"
proof (induction evs arbitrary: s)
  case Nil
  then show ?case by simp
next
  case (Cons e evs)
  from Cons.prems(1) have en: "enabled e s" and rest: "exec evs (fire e s) = Some s'"
    by (simp_all split: if_splits)
  from Cons.IH [OF rest wf_fire [OF en Cons.prems(2)]] show ?case .
qed

lemma cursor_after_handleMessage:
  assumes "outputAudioContext s = Some ctx" "truthy (audioData m)" "0 \<le> duration b"
  shows "currentTime ctx \<le> nextStartTime (snd (handleMessage m (Inr b) s))"
  using assms(3)
  by (simp add: snd_handleMessage audio_scheduled [OF assms(1) assms(2)] fields_stopAudioOutput
        assms(1) max_def)

text \<open>
  Claim C7, as amended.  In every state that an execution reaches from the initial state,
  no two segments scheduled from the active set overlap and each of them ends at or before
  the cursor.  The cursor is at or after the device clock when a call that enqueues a
  segment returns, and equals it when \<open>stopAudioOutput\<close> returns; between calls nothing
  keeps the cursor ahead of the clock.
\<close>

theorem C7_timeline:
  assumes "exec evs initial = Some s"
  shows "noOverlap s \<and> cursorCovers s
    \<and> (\<forall>ctx m b. outputAudioContext s = Some ctx \<and> truthy (audioData m) \<and> 0 \<le> duration b
          \<longrightarrow> currentTime ctx \<le> nextStartTime (snd (handleMessage m (Inr b) s)))
    \<and> (\<forall>ctx. outputAudioContext s = Some ctx
          \<longrightarrow> nextStartTime (stopAudioOutput s) = currentTime ctx)"
proof -
  from wf_exec [OF assms wf_initial] have "noOverlap s" "cursorCovers s"
    by (simp_all add: wellFormed_def)
  then show ?thesis
    by (simp add: cursor_after_handleMessage fields_stopAudioOutput)
qed

text \<open>
  Claim C7 as stated fails in its second half: after a one-second segment scheduled at 10
  the clock reaches 12 while the cursor stays at 11.
\<close>

theorem C7_counterexample:
  "exec lateRun initial = Some afterOneSecond
   \<and> outputAudioContext afterOneSecond = Some \<lparr>ctx_id = 0, currentTime = 12, ctx_closed = False\<rparr>
   \<and> nextStartTime afterOneSecond = 11
   \<and> \<not> currentTime \<lparr>ctx_id = 0, currentTime = 12, ctx_closed = False\<rparr>
         \<le> nextStartTime afterOneSecond"
  by (simp add: lateRun_def afterOneSecond_def ex ops)

theorem C7_timeline_witness:
  "exec backlogRun initial = Some twoScheduled
   \<and> audioSources twoScheduled = [0, 1]
   \<and> segment twoScheduled 0 = Some (10, 11)
   \<and> segment twoScheduled 1 = Some (11, 12)
   \<and> noOverlap twoScheduled \<and> cursorCovers twoScheduled
   \<and> truthy (audioData audioMessage) \<and> 0 \<le> duration (seconds 1)
   \<and> (21 / 2 :: real) \<le> nextStartTime (snd (handleMessage audioMessage (Inr (seconds 1)) twoScheduled))
   \<and> nextStartTime (stopAudioOutput twoScheduled) = 21 / 2"
proof -
  have e: "exec backlogRun initial = Some twoScheduled"
    by (simp add: backlogRun_def ex ops)
  have c: "outputAudioContext twoScheduled = Some \<lparr>ctx_id = 0, currentTime = 21 / 2, ctx_closed = False\<rparr>"
    by (simp add: ex ops)
  have a: "audioSources twoScheduled = [0, 1]"
    "segment twoScheduled 0 = Some (10, 11)" "segment twoScheduled 1 = Some (11, 12)"
    by (simp_all add: segment_def ex ops)
  have t: "truthy (audioData audioMessage) \<and> 0 \<le> duration (seconds 1)"
    by (simp add: audioMessage_def seconds_def truthy_def)
  note r = C7_timeline [OF e]
  from r have p1: "noOverlap twoScheduled \<and> cursorCovers twoScheduled" by blast
  from r c t have p2: "currentTime \<lparr>ctx_id = 0, currentTime = 21 / 2, ctx_closed = False\<rparr>
      \<le> nextStartTime (snd (handleMessage audioMessage (Inr (seconds 1)) twoScheduled))"
    by blast
  from r c have p3: "nextStartTime (stopAudioOutput twoScheduled)
      = currentTime \<lparr>ctx_id = 0, currentTime = 21 / 2, ctx_closed = False\<rparr>"
    by blast
  from e a p1 t p2 p3 show ?thesis by simp
qed

theorem C8_stop_finished_handle_witness:
  "nodes firstFinished 0 = Some \<lparr>node_context = 0, buffer = seconds 1, startWhen = Some 10,
       stopCalled = False\<rparr>
   \<and> outputAudioContext firstFinished = Some \<lparr>ctx_id = 0, currentTime = 23 / 2, ctx_closed = False\<rparr>
   \<and> playbackCompleted \<lparr>ctx_id = 0, currentTime = 23 / 2, ctx_closed = False\<rparr>
        \<lparr>node_context = 0, buffer = seconds 1, startWhen = Some 10, stopCalled = False\<rparr>
   \<and> audioSources firstFinished = [0, 1]
   \<and> (\<exists>store'. source_stop 0 (nodes firstFinished) = Inr store')
   \<and> tryStop 0 (nodes firstFinished) 1 = nodes firstFinished 1
   \<and> \<not> stopped firstFinished 1
   \<and> stopped (stopAudioOutput firstFinished) 0
   \<and> stopped (stopAudioOutput firstFinished) 1
   \<and> audioSources (stopAudioOutput firstFinished) = []"
proof -
  have n: "nodes firstFinished 0 = Some \<lparr>node_context = 0, buffer = seconds 1, startWhen = Some 10,
       stopCalled = False\<rparr>"
    by (simp add: firstFinished_def ex ops)
  have c: "outputAudioContext firstFinished = Some \<lparr>ctx_id = 0, currentTime = 23 / 2, ctx_closed = False\<rparr>"
    by (simp add: firstFinished_def ex ops)
  have p: "playbackCompleted \<lparr>ctx_id = 0, currentTime = 23 / 2, ctx_closed = False\<rparr>
        \<lparr>node_context = 0, buffer = seconds 1, startWhen = Some 10, stopCalled = False\<rparr>"
    by (simp add: playbackCompleted_def seconds_def)
  have a: "audioSources firstFinished = [0, 1]" "\<not> stopped firstFinished 1"
    "startTime firstFinished 0 \<noteq> None" "startTime firstFinished 1 \<noteq> None"
    by (simp_all add: firstFinished_def ex ops)
  note r = C8_stop_finished_handle [OF n c p]
  from r have p1: "\<exists>store'. source_stop 0 (nodes firstFinished) = Inr store'" by blast
  from r have p2: "tryStop 0 (nodes firstFinished) 1 = nodes firstFinished 1" by simp
  from r a have p3: "stopped (stopAudioOutput firstFinished) 0
      \<and> stopped (stopAudioOutput firstFinished) 1" by simp
  from r have p4: "audioSources (stopAudioOutput firstFinished) = []" by blast
  from n c p a p1 p2 p3 p4 show ?thesis by blast
qed

section \<open>Properties of route parsing\<close>

lemma firstSome_Some:
  "firstSome f ns = Some r \<Longrightarrow> \<exists>n \<in> set ns. f n = Some r"
  by (induction ns) (auto split: option.splits)

lemma firstSome_None: "(firstSome f ns = None) = (\<forall>n \<in> set ns. f n = None)"
  by (induction ns) (auto split: option.splits)

lemma set_candidates: "set (candidates q lo hi) = {lo..hi}"
  by (cases q) (auto simp: candidates_def)

lemma take_all_cls:
  assumes "n \<le> length (takeWhile P s)"
  shows "list_all P (take n s)"
proof -
  have "take n s = take n (takeWhile P s @ dropWhile P s)" by simp
  also have "\<dots> = take n (takeWhile P s)" using assms by (simp del: takeWhile_dropWhile_id)
  finally have "set (take n s) \<subseteq> set (takeWhile P s)" by (simp add: set_take_subset)
  then show ?thesis by (auto simp: list_all_iff dest: set_takeWhileD)
qed

lemma all_cls_length:
  assumes "list_all P u"
  shows "length u \<le> length (takeWhile P (u @ t))"
proof -
  from assms have "takeWhile P (u @ t) = u @ takeWhile P t"
    by (simp add: list_all_iff)
  then show ?thesis by simp
qed

lemma regexMatch_accepts: "(regexMatch r s g \<noteq> None) = accepts r s"
proof (induction r arbitrary: s g)
  case Nil
  show ?case by simp
next
  case (Cons it rest)
  show ?case
  proof (cases it)
    case (Lit l)
    have "(take (length l) s = l) = (\<exists>t. s = l @ t)"
      by (metis append_eq_conv_conj append_take_drop_id)
    then show ?thesis
      using Cons.IH by (auto simp: Lit)
  next
    case (Rep cls q lo capture)
    let ?hi = "length (takeWhile cls s)"
    let ?g = "\<lambda>n. if capture then g @ [take n s] else g"
    have "(regexMatch (it # rest) s g \<noteq> None)
        = (\<exists>n. lo \<le> n \<and> n \<le> ?hi \<and> regexMatch rest (drop n s) (?g n) \<noteq> None)"
      by (auto simp: Rep firstSome_None set_candidates)
    also have "\<dots> = (\<exists>n. lo \<le> n \<and> n \<le> ?hi \<and> accepts rest (drop n s))"
      using Cons.IH by simp
    also have "\<dots> = (\<exists>u t. s = u @ t \<and> list_all cls u \<and> lo \<le> length u \<and> accepts rest t)"
    proof
      assume "\<exists>n. lo \<le> n \<and> n \<le> ?hi \<and> accepts rest (drop n s)"
      then obtain n where n: "lo \<le> n" "n \<le> ?hi" "accepts rest (drop n s)" by blast
      from n(2) have "n \<le> length s"
        using length_takeWhile_le [of cls s] by simp
      with n take_all_cls [OF n(2)]
      have "s = take n s @ drop n s \<and> list_all cls (take n s) \<and> lo \<le> length (take n s)
          \<and> accepts rest (drop n s)"
        by simp
      then show "\<exists>u t. s = u @ t \<and> list_all cls u \<and> lo \<le> length u \<and> accepts rest t"
        by blast
    next
      assume "\<exists>u t. s = u @ t \<and> list_all cls u \<and> lo \<le> length u \<and> accepts rest t"
      then obtain u t where ut: "s = u @ t" "list_all cls u" "lo \<le> length u" "accepts rest t"
        by blast
      from all_cls_length [OF ut(2), of t] ut
      have "lo \<le> length u \<and> length u \<le> ?hi \<and> accepts rest (drop (length u) s)"
        by simp
      then show "\<exists>n. lo \<le> n \<and> n \<le> ?hi \<and> accepts rest (drop n s)" by blast
    qed
    finally show ?thesis by (simp add: Rep)
  qed
qed

lemma regexSearch_matchesPattern: "(regexSearch r s \<noteq> None) = matchesPattern r s"
proof (induction s)
  case Nil
  have "matchesPattern r [] = accepts r []" by (simp add: matchesPattern_def)
  then show ?case by (simp only: regexSearch.simps regexMatch_accepts)
next
  case (Cons c cs)
  have "(regexSearch r (c # cs) \<noteq> None)
      = (regexMatch r (c # cs) [] \<noteq> None \<or> regexSearch r cs \<noteq> None)"
    by (simp split: option.splits)
  also have "\<dots> = (accepts r (c # cs) \<or> matchesPattern r cs)"
    by (simp only: regexMatch_accepts Cons.IH)
  also have "\<dots> = matchesPattern r (c # cs)"
    unfolding matchesPattern_def
  proof
    assume "accepts r (c # cs) \<or> (\<exists>pre t. cs = pre @ t \<and> accepts r t)"
    then show "\<exists>pre t. c # cs = pre @ t \<and> accepts r t"
    proof
      assume "accepts r (c # cs)"
      then have "c # cs = [] @ (c # cs) \<and> accepts r (c # cs)" by simp
      then show ?thesis by blast
    next
      assume "\<exists>pre t. cs = pre @ t \<and> accepts r t"
      then obtain pre t where "cs = pre @ t" "accepts r t" by blast
      then have "c # cs = (c # pre) @ t \<and> accepts r t" by simp
      then show ?thesis by blast
    qed
  next
    assume "\<exists>pre t. c # cs = pre @ t \<and> accepts r t"
    then obtain pre t where pt: "c # cs = pre @ t" "accepts r t" by blast
    show "accepts r (c # cs) \<or> (\<exists>pre t. cs = pre @ t \<and> accepts r t)"
    proof (cases pre)
      case Nil
      with pt show ?thesis by simp
    next
      case (Cons a pre')
      with pt have "cs = pre' @ t" by simp
      with pt(2) show ?thesis by blast
    qed
  qed
  finally show ?case .
qed

lemma regexMatch_groups:
  "regexMatch r s g = Some g' \<Longrightarrow> length g' = length g + groupCount r"
proof (induction r arbitrary: s g)
  case Nil
  then show ?case by simp
next
  case (Cons it rest)
  show ?case
  proof (cases it)
    case (Lit l)
    with Cons.prems have "regexMatch rest (drop (length l) s) g = Some g'"
      by (simp split: if_splits)
    from Cons.IH [OF this] show ?thesis by (simp add: Lit)
  next
    case (Rep cls q lo capture)
    with Cons.prems obtain n where
      "regexMatch rest (drop n s) (if capture then g @ [take n s] else g) = Some g'"
      by (auto dest: firstSome_Some)
    from Cons.IH [OF this] show ?thesis by (simp add: Rep)
  qed
qed

lemma regexSearch_groups:
  "regexSearch r s = Some g \<Longrightarrow> length g = groupCount r"
  by (induction s) (auto split: option.splits dest: regexMatch_groups)

lemma marker_groups:
  assumes "regexSearch markerRegex line = Some g"
  shows "\<exists>name latitude longitude descr. g = [name, latitude, longitude, descr]"
proof -
  from regexSearch_groups [OF assms] have "length g = 4"
    by (simp add: markerRegex_def)
  then show ?thesis
    by (auto simp: length_Suc_conv numeral_eq_Suc)
qed

lemma parseLines_eq: "parseLines ls found = found @ List.map_filter placeOfLine ls"
proof (induction ls arbitrary: found)
  case Nil
  show ?case by (simp add: map_filter_simps)
next
  case (Cons line rest)
  show ?case
    by (simp add: Cons.IH placeOfLine_def map_filter_simps split: option.splits list.splits)
qed

lemma placeOfLine_Some:
  "(placeOfLine line = Some p) =
     (\<exists>name latitude longitude descr.
        regexSearch markerRegex line = Some [name, latitude, longitude, descr]
        \<and> \<not> isNaN (parseFloat latitude) \<and> \<not> isNaN (parseFloat longitude)
        \<and> p = \<lparr>title = trim name, lat = parseFloat latitude, lng = parseFloat longitude,
                description = trim descr\<rparr>)"
  by (auto simp: placeOfLine_def split: option.splits list.splits)

lemma askForDirections_answered:
  assumes "generateContent (requestOf query latitude longitude w) = Inr response"
  shows "askForDirections generateContent query latitude longitude w =
     Inr \<lparr>result_text = textOf response,
          places = List.map_filter placeOfLine (split_lines (textOf response))\<rparr>"
  using assms
  by (simp add: askForDirections_def directionsBody_def parseLines_eq)

lemma askForDirections_failed:
  assumes "generateContent (requestOf query latitude longitude w) = Inl e"
  shows "askForDirections generateContent query latitude longitude w = Inr fallbackResult"
  using assms
  by (simp add: askForDirections_def directionsBody_def)

lemma map_filter_in:
  "p \<in> set (List.map_filter f xs) \<Longrightarrow> \<exists>x \<in> set xs. f x = Some p"
  by (auto simp: List.map_filter_def)

text \<open>
  Claim C9.  Route parsing is one pass over the lines of the text, in their order: the
  loop returns the places of the lines that yield one.  A line yields a place exactly if
  the pattern matches somewhere in it and both captured coordinates parse as numbers; the
  place has the trimmed name and description and the parsed coordinates of the match.
  The search finds a match exactly if the line matches the pattern read as a language,
  and a match has four groups.  Every other line yields nothing and raises nothing.
\<close>

theorem C9_route_parsing:
  "parseLines (split_lines t) [] = List.map_filter placeOfLine (split_lines t)
   \<and> (generateContent (requestOf query latitude longitude w) = Inr response \<longrightarrow>
        askForDirections generateContent query latitude longitude w =
          Inr \<lparr>result_text = textOf response,
               places = List.map_filter placeOfLine (split_lines (textOf response))\<rparr>)
   \<and> (regexSearch markerRegex line \<noteq> None) = matchesPattern markerRegex line
   \<and> (regexSearch markerRegex line = Some g \<longrightarrow>
        (\<exists>name la lo descr. g = [name, la, lo, descr]))
   \<and> (placeOfLine line = Some p) =
        (\<exists>name la lo descr.
           regexSearch markerRegex line = Some [name, la, lo, descr]
           \<and> \<not> isNaN (parseFloat la) \<and> \<not> isNaN (parseFloat lo)
           \<and> p = \<lparr>title = trim name, lat = parseFloat la, lng = parseFloat lo,
                   description = trim descr\<rparr>)
   \<and> (placeOfLine line = None) =
        (\<not> matchesPattern markerRegex line
         \<or> (\<exists>name la lo descr.
              regexSearch markerRegex line = Some [name, la, lo, descr]
              \<and> (isNaN (parseFloat la) \<or> isNaN (parseFloat lo))))"
proof -
  have p1: "parseLines (split_lines t) [] = List.map_filter placeOfLine (split_lines t)"
    by (simp add: parseLines_eq)
  have p3: "(regexSearch markerRegex line \<noteq> None) = matchesPattern markerRegex line"
    by (rule regexSearch_matchesPattern)
  have p4: "regexSearch markerRegex line = Some g \<longrightarrow>
        (\<exists>name la lo descr. g = [name, la, lo, descr])"
    using marker_groups by blast
  have p6: "(placeOfLine line = None) =
        (\<not> matchesPattern markerRegex line
         \<or> (\<exists>name la lo descr.
              regexSearch markerRegex line = Some [name, la, lo, descr]
              \<and> (isNaN (parseFloat la) \<or> isNaN (parseFloat lo))))"
  proof (cases "regexSearch markerRegex line")
    case None
    with p3 show ?thesis by (simp add: placeOfLine_def)
  next
    case (Some g')
    from marker_groups [OF Some] obtain name la lo descr where g': "g' = [name, la, lo, descr]"
      by blast
    from Some p3 have "matchesPattern markerRegex line" by simp
    then show ?thesis by (simp add: placeOfLine_def Some g')
  qed
  from p1 p3 p4 p6 askForDirections_answered placeOfLine_Some show ?thesis
    by blast
qed

lemmas route_eval = parseFloat_def parseUnsigned_def isWhiteSpace_def isDigit_def
  digitsValue_def exponentPart_def scale_def isNaN_def trim_def Let_def

lemma sample_split:
  "split_lines sampleText = [''Here you go:'', sampleLine, ''MARKER: Nowhere | - | 3 | x'']"
  by (simp add: sampleText_def sampleLine_def)

lemma sample_search1:
  "regexSearch markerRegex sampleLine
     = Some [''Central Station'', ''40.7128'', ''-74.0060'', ''Main accessible entrance on 42nd St.'']"
  by code_simp

lemma sample_search2:
  "regexSearch markerRegex ''MARKER: Nowhere | - | 3 | x'' = Some [''Nowhere'', ''-'', ''3'', ''x'']"
  by code_simp

lemma sample_search3: "regexSearch markerRegex ''Here you go:'' = None"
  by code_simp

lemma sample_numbers:
  "parseFloat ''40.7128'' = Num (50891 / 1250)" "parseFloat ''-74.0060'' = Num (- (37003 / 500))"
  "parseFloat ''-'' = NaN" "parseFloat ''3'' = Num 3"
  by (simp_all add: route_eval)

lemma sample_trim:
  "trim ''Central Station'' = ''Central Station''"
  "trim ''Main accessible entrance on 42nd St.'' = ''Main accessible entrance on 42nd St.''"
  by (simp_all add: route_eval)

lemma sample_place1: "placeOfLine sampleLine = Some samplePlace"
  unfolding placeOfLine_def sample_search1
  by (simp add: sample_numbers sample_trim samplePlace_def isNaN_def)

lemma sample_place2: "placeOfLine ''MARKER: Nowhere | - | 3 | x'' = None"
  unfolding placeOfLine_def sample_search2
  by (simp add: sample_numbers isNaN_def)

lemma sample_place3: "placeOfLine ''Here you go:'' = None"
  unfolding placeOfLine_def sample_search3
  by simp

lemma sample_places: "List.map_filter placeOfLine (split_lines sampleText) = [samplePlace]"
  unfolding sample_split
  by (simp only: map_filter_simps sample_place1 sample_place2 sample_place3 option.case)

theorem C9_route_parsing_witness:
  "answering (requestOf ''station'' (Num 40) (Num (- 74)) True) = Inr \<lparr>response_text = Some sampleText\<rparr>
   \<and> askForDirections answering ''station'' (Num 40) (Num (- 74)) True
        = Inr \<lparr>result_text = sampleText, places = [samplePlace]\<rparr>
   \<and> regexSearch markerRegex sampleLine
        = Some [''Central Station'', ''40.7128'', ''-74.0060'', ''Main accessible entrance on 42nd St.'']
   \<and> matchesPattern markerRegex sampleLine
   \<and> placeOfLine sampleLine = Some samplePlace
   \<and> regexSearch markerRegex ''MARKER: Nowhere | - | 3 | x'' = Some [''Nowhere'', ''-'', ''3'', ''x'']
   \<and> isNaN (parseFloat ''-'')
   \<and> placeOfLine ''MARKER: Nowhere | - | 3 | x'' = None
   \<and> \<not> matchesPattern markerRegex ''Here you go:''
   \<and> placeOfLine ''Here you go:'' = None"
proof -
  have a: "answering (requestOf ''station'' (Num 40) (Num (- 74)) True)
      = Inr \<lparr>response_text = Some sampleText\<rparr>"
    by (simp add: answering_def)
  have t: "textOf \<lparr>response_text = Some sampleText\<rparr> = sampleText"
    by (simp add: textOf_def truthy_def sampleText_def)
  have n: "isNaN (parseFloat ''-'')" "\<not> isNaN (parseFloat ''40.7128'')"
    "\<not> isNaN (parseFloat ''-74.0060'')"
    by (simp_all add: sample_numbers isNaN_def)
  have v: "\<lparr>title = trim ''Central Station'', lat = parseFloat ''40.7128'', lng = parseFloat ''-74.0060'',
        description = trim ''Main accessible entrance on 42nd St.''\<rparr> = samplePlace"
    by (simp add: sample_numbers sample_trim samplePlace_def)
  note r1 = C9_route_parsing [of sampleText answering "''station''" "Num 40" "Num (- 74)" True
      "\<lparr>response_text = Some sampleText\<rparr>" sampleLine _ samplePlace]
  note r2 = C9_route_parsing [of sampleText answering "''station''" "Num 40" "Num (- 74)" True
      "\<lparr>response_text = Some sampleText\<rparr>" "''MARKER: Nowhere | - | 3 | x''"]
  note r3 = C9_route_parsing [of sampleText answering "''station''" "Num 40" "Num (- 74)" True
      "\<lparr>response_text = Some sampleText\<rparr>" "''Here you go:''"]
  from r1 a t sample_places have p1: "askForDirections answering ''station'' (Num 40) (Num (- 74)) True
        = Inr \<lparr>result_text = sampleText, places = [samplePlace]\<rparr>"
    by simp
  from r1 sample_search1 have p2: "matchesPattern markerRegex sampleLine" by simp
  from r1 sample_search1 n v have p3: "placeOfLine sampleLine = Some samplePlace" by simp
  from r2 sample_search2 n have p4: "placeOfLine ''MARKER: Nowhere | - | 3 | x'' = None" by blast
  from r3 sample_search3 have p5: "\<not> matchesPattern markerRegex ''Here you go:''" by simp
  with r3 have p6: "placeOfLine ''Here you go:'' = None" by blast
  from a p1 sample_search1 p2 p3 sample_search2 n(1) p4 p5 p6 show ?thesis by blast
qed

text \<open>
  Claim C10.  \<open>askForDirections\<close> never rejects: it always returns a result.  When the call
  of the model fails, the result is the fixed fallback text with no places.  In every
  result, the coordinates of every place are values of \<open>parseFloat\<close> that are not \<open>NaN\<close>.
\<close>

theorem C10_never_throws:
  "(\<exists>result. askForDirections generateContent query latitude longitude w = Inr result)
   \<and> (\<forall>e. generateContent (requestOf query latitude longitude w) = Inl e \<longrightarrow>
          askForDirections generateContent query latitude longitude w = Inr fallbackResult)
   \<and> result_text fallbackResult = ''Sorry, I couldn't fetch directions at this moment.''
   \<and> places fallbackResult = []
   \<and> (\<forall>result. askForDirections generateContent query latitude longitude w = Inr result \<longrightarrow>
          (\<forall>p \<in> set (places result).
             \<not> isNaN (lat p) \<and> \<not> isNaN (lng p)
             \<and> (\<exists>la lo. lat p = parseFloat la \<and> lng p = parseFloat lo)))"
proof -
  let ?r = "askForDirections generateContent query latitude longitude w"
  have p1: "\<exists>result. ?r = Inr result"
    by (simp add: askForDirections_def split: sum.splits)
  have p2: "\<forall>e. generateContent (requestOf query latitude longitude w) = Inl e \<longrightarrow>
          ?r = Inr fallbackResult"
    using askForDirections_failed by blast
  have p3: "\<not> isNaN (lat p) \<and> \<not> isNaN (lng p)
       \<and> (\<exists>la lo. lat p = parseFloat la \<and> lng p = parseFloat lo)"
    if r: "?r = Inr result" and p: "p \<in> set (places result)" for result p
  proof (cases "generateContent (requestOf query latitude longitude w)")
    case (Inl e)
    from askForDirections_failed [of generateContent query latitude longitude w e] Inl r
    have "result = fallbackResult" by simp
    with p show ?thesis by (simp add: fallbackResult_def)
  next
    case (Inr response)
    from askForDirections_answered [of generateContent query latitude longitude w response] Inr r
    have "places result = List.map_filter placeOfLine (split_lines (textOf response))"
      by auto
    with p obtain line where "placeOfLine line = Some p"
      by (auto dest: map_filter_in)
    then show ?thesis
      by (auto simp: placeOfLine_Some)
  qed
  from p1 p2 p3 show ?thesis
    by (simp add: fallbackResult_def)
qed

theorem C10_never_throws_witness:
  "failing (requestOf ''station'' (Num 40) (Num (- 74)) False) = Inl RequestError
   \<and> askForDirections failing ''station'' (Num 40) (Num (- 74)) False
        = Inr \<lparr>result_text = ''Sorry, I couldn't fetch directions at this moment.'', places = []\<rparr>
   \<and> askForDirections answering ''station'' (Num 40) (Num (- 74)) True
        = Inr \<lparr>result_text = sampleText, places = [samplePlace]\<rparr>
   \<and> \<not> isNaN (lat samplePlace) \<and> \<not> isNaN (lng samplePlace)"
proof -
  have f: "failing (requestOf ''station'' (Num 40) (Num (- 74)) False) = Inl RequestError"
    by (simp add: failing_def)
  have "answering (requestOf ''station'' (Num 40) (Num (- 74)) True)
      = Inr \<lparr>response_text = Some sampleText\<rparr>"
    by (simp add: answering_def)
  from askForDirections_answered [of answering "''station''" "Num 40" "Num (- 74)" True
      "\<lparr>response_text = Some sampleText\<rparr>"] this
  have a: "askForDirections answering ''station'' (Num 40) (Num (- 74)) True
        = Inr \<lparr>result_text = sampleText, places = [samplePlace]\<rparr>"
    by (simp add: textOf_def truthy_def sample_places) (simp add: sampleText_def)
  note r1 = C10_never_throws [of failing "''station''" "Num 40" "Num (- 74)" False]
  note r2 = C10_never_throws [of answering "''station''" "Num 40" "Num (- 74)" True]
  from r1 f have p1: "askForDirections failing ''station'' (Num 40) (Num (- 74)) False
        = Inr \<lparr>result_text = ''Sorry, I couldn't fetch directions at this moment.'', places = []\<rparr>"
    by (simp add: fallbackResult_def)
  from r2 a have p2: "\<not> isNaN (lat samplePlace) \<and> \<not> isNaN (lng samplePlace)"
    by simp
  from f p1 a p2 show ?thesis by blast
qed

end
